theory Spec2Isabelle
  imports Complex_Main "HOL-Library.Word" "HOL-Library.Multiset"
begin

unbundle bit_operations_syntax

section \<open>JavaScript values\<close>

text \<open>
  The collector is TypeScript. A \<open>bigint\<close> is an unbounded integer (\<open>int\<close>); a
  \<open>Buffer\<close> is a list of bytes; an exception is a value of type \<open>error\<close> carrying
  the message that \<open>err.message\<close> reads.
\<close>

type_synonym bigint = int
type_synonym byte = "8 word"
type_synonym buffer = "byte list"

datatype error =
    Error string
  | RangeError string
  | TypeError string
  | SqliteError string

fun message :: "error \<Rightarrow> string" where
  "message (Error m) = m"
| "message (RangeError m) = m"
| "message (TypeError m) = m"
| "message (SqliteError m) = m"

text \<open>Decimal rendering of a non-negative integer, as template literals print it.\<close>

function show_nat :: "nat \<Rightarrow> string" where
  "show_nat n =
     (if n < 10 then [char_of (48 + n)]
      else show_nat (n div 10) @ [char_of (48 + n mod 10)])"
  by pat_completeness auto
termination
  by (relation "measure (\<lambda>n. n)") auto

declare show_nat.simps [simp del]

subsection \<open>Number(bigint)\<close>

text \<open>
  \<open>Number(x)\<close> of a bigint is the IEEE-754 double nearest to \<open>x\<close>, ties to the even
  significand. A double holds 53 significant bits, so the conversion is exact up to
  \<open>2 ^ 53\<close> and rounds above. Every bigint of the program is a u64 or a difference of
  two, far below the overflow threshold \<open>2 ^ 1024\<close>, so the result is always an
  integer-valued double and is modelled as an \<open>int\<close>.
\<close>

fun bit_length :: "nat \<Rightarrow> nat" where
  "bit_length n = (if n = 0 then 0 else Suc (bit_length (n div 2)))"

declare bit_length.simps [simp del]

definition round_half_even :: "nat \<Rightarrow> nat \<Rightarrow> nat" where
  "round_half_even e n =
     (let q = n div 2 ^ e; r = n mod 2 ^ e; h = 2 ^ (e - 1)
      in (if r < h \<or> (r = h \<and> even q) then q else q + 1) * 2 ^ e)"

definition nat_to_double :: "nat \<Rightarrow> nat" where
  "nat_to_double n =
     (if bit_length n \<le> 53 then n else round_half_even (bit_length n - 53) n)"

definition bigint_to_number :: "bigint \<Rightarrow> int" where
  "bigint_to_number x =
     (if x < 0 then - int (nat_to_double (nat (- x))) else int (nat_to_double (nat x)))"

text \<open>The bigint remainder \<open>a % b\<close> truncates towards zero: its sign follows \<open>a\<close>.\<close>

definition bigint_rem :: "bigint \<Rightarrow> bigint \<Rightarrow> bigint" where
  "bigint_rem a b = sgn a * (\<bar>a\<bar> mod \<bar>b\<bar>)"

subsection \<open>Numbers\<close>

text \<open>
  A JavaScript \<open>number\<close> is an IEEE-754 double: a finite value, one of the two
  infinities, or NaN. Finite doubles are modelled as reals: rounding and overflow of
  finite arithmetic are not modelled, and there is a single zero (the program never
  divides by a zero it computed: every divisor is a positive constant or is guarded).
  The operations follow IEEE-754 on the non-finite values.
\<close>

datatype number = Finite real | PosInfinity | NegInfinity | NaN

fun isFinite :: "number \<Rightarrow> bool" where
  "isFinite (Finite x) = True"
| "isFinite PosInfinity = False"
| "isFinite NegInfinity = False"
| "isFinite NaN = False"

definition infinity_of_sign :: "real \<Rightarrow> number" where
  "infinity_of_sign s = (if 0 < s then PosInfinity else if s < 0 then NegInfinity else NaN)"

fun num_neg :: "number \<Rightarrow> number" where
  "num_neg (Finite x) = Finite (- x)"
| "num_neg PosInfinity = NegInfinity"
| "num_neg NegInfinity = PosInfinity"
| "num_neg NaN = NaN"

fun num_add :: "number \<Rightarrow> number \<Rightarrow> number" where
  "num_add (Finite a) (Finite b) = Finite (a + b)"
| "num_add NaN y = NaN"
| "num_add x NaN = NaN"
| "num_add PosInfinity NegInfinity = NaN"
| "num_add NegInfinity PosInfinity = NaN"
| "num_add PosInfinity y = PosInfinity"
| "num_add x PosInfinity = PosInfinity"
| "num_add NegInfinity y = NegInfinity"
| "num_add x NegInfinity = NegInfinity"

definition num_sub :: "number \<Rightarrow> number \<Rightarrow> number" where
  "num_sub x y = num_add x (num_neg y)"

fun num_mul :: "number \<Rightarrow> number \<Rightarrow> number" where
  "num_mul (Finite a) (Finite b) = Finite (a * b)"
| "num_mul NaN y = NaN"
| "num_mul x NaN = NaN"
| "num_mul (Finite a) PosInfinity = infinity_of_sign a"
| "num_mul (Finite a) NegInfinity = infinity_of_sign (- a)"
| "num_mul PosInfinity (Finite b) = infinity_of_sign b"
| "num_mul NegInfinity (Finite b) = infinity_of_sign (- b)"
| "num_mul PosInfinity PosInfinity = PosInfinity"
| "num_mul PosInfinity NegInfinity = NegInfinity"
| "num_mul NegInfinity PosInfinity = NegInfinity"
| "num_mul NegInfinity NegInfinity = PosInfinity"

fun num_div :: "number \<Rightarrow> number \<Rightarrow> number" where
  "num_div (Finite a) (Finite b) = (if b = 0 then infinity_of_sign a else Finite (a / b))"
| "num_div NaN y = NaN"
| "num_div x NaN = NaN"
| "num_div (Finite a) PosInfinity = Finite 0"
| "num_div (Finite a) NegInfinity = Finite 0"
| "num_div PosInfinity (Finite b) = (if 0 \<le> b then PosInfinity else NegInfinity)"
| "num_div NegInfinity (Finite b) = (if 0 \<le> b then NegInfinity else PosInfinity)"
| "num_div x y = NaN"

text \<open>\<open>x <= y\<close>: false as soon as one side is NaN.\<close>

fun num_le :: "number \<Rightarrow> number \<Rightarrow> bool" where
  "num_le (Finite a) (Finite b) = (a \<le> b)"
| "num_le NaN y = False"
| "num_le x NaN = False"
| "num_le NegInfinity y = True"
| "num_le x PosInfinity = True"
| "num_le x y = False"

text \<open>\<open>x !== y\<close> on numbers: NaN differs from everything, itself included.\<close>

fun strict_neq :: "number \<Rightarrow> number \<Rightarrow> bool" where
  "strict_neq NaN y = True"
| "strict_neq x NaN = True"
| "strict_neq x y = (x \<noteq> y)"

fun Math_max :: "number \<Rightarrow> number \<Rightarrow> number" where
  "Math_max NaN y = NaN"
| "Math_max x NaN = NaN"
| "Math_max x y = (if num_le x y then y else x)"

fun Math_floor :: "number \<Rightarrow> number" where
  "Math_floor (Finite x) = Finite (of_int \<lfloor>x\<rfloor>)"
| "Math_floor x = x"

text \<open>\<open>BigInt(x)\<close> of a number throws a RangeError unless \<open>x\<close> is an integer.\<close>

fun BigInt :: "number \<Rightarrow> error + bigint" where
  "BigInt (Finite x) =
     (if of_int \<lfloor>x\<rfloor> = x then Inr \<lfloor>x\<rfloor>
      else Inl (RangeError ''The number cannot be converted to a BigInt because it is not an integer''))"
| "BigInt x = Inl (RangeError ''The number cannot be converted to a BigInt because it is not an integer'')"

text \<open>
  \<open>Number(x)\<close> of a value typed bigint. An array read past the end gives
  \<open>undefined\<close> (here \<open>None\<close>), and \<open>Number(undefined)\<close> is NaN.
\<close>

definition Number_bigint :: "bigint \<Rightarrow> number" where
  "Number_bigint x = Finite (of_int (bigint_to_number x))"

fun Number_of :: "bigint option \<Rightarrow> number" where
  "Number_of None = NaN"
| "Number_of (Some x) = Number_bigint x"

definition index :: "'a list \<Rightarrow> nat \<Rightarrow> 'a option" where
  "index xs i = (if i < length xs then Some (xs ! i) else None)"

text \<open>Running a throwing step over a list: the first exception ends the loop.\<close>

fun for_each :: "('a \<Rightarrow> error + 'b) \<Rightarrow> 'a list \<Rightarrow> error + 'b list" where
  "for_each f [] = Inr []"
| "for_each f (x # xs) =
     (case f x of
        Inl e \<Rightarrow> Inl e
      | Inr y \<Rightarrow> (case for_each f xs of Inl e \<Rightarrow> Inl e | Inr ys \<Rightarrow> Inr (y # ys)))"

subsection \<open>Buffer reads\<close>

text \<open>
  Node's \<open>Buffer.readBigUInt64LE\<close> and \<open>readUInt16LE\<close>: a bounds check on the first
  and last byte, then the little-endian value. Out of range they throw a RangeError.
\<close>

definition byte_at :: "buffer \<Rightarrow> nat \<Rightarrow> int" where
  "byte_at buf i = uint (buf ! i)"

definition readBigUInt64LE :: "buffer \<Rightarrow> nat \<Rightarrow> error + bigint" where
  "readBigUInt64LE buf offset =
     (if offset + 7 < length buf then
        (let lo = byte_at buf offset + byte_at buf (offset + 1) * 2 ^ 8
                  + byte_at buf (offset + 2) * 2 ^ 16 + byte_at buf (offset + 3) * 2 ^ 24;
             hi = byte_at buf (offset + 4) + byte_at buf (offset + 5) * 2 ^ 8
                  + byte_at buf (offset + 6) * 2 ^ 16 + byte_at buf (offset + 7) * 2 ^ 24
         in Inr (lo + push_bit 32 hi))
      else Inl (RangeError ''Attempt to access memory outside buffer bounds''))"

definition readUInt16LE :: "buffer \<Rightarrow> nat \<Rightarrow> error + int" where
  "readUInt16LE buf offset =
     (if offset + 1 < length buf then
        Inr (byte_at buf offset + byte_at buf (offset + 1) * 2 ^ 8)
      else Inl (RangeError ''Attempt to access memory outside buffer bounds''))"

section \<open>RNG calculator (application/services/rng-calculator.ts)\<close>

definition computeRng :: "buffer \<Rightarrow> error + bigint" where
  "computeRng slotHash =
     (if length slotHash \<noteq> 32 then
        Inl (Error (''Invalid slot hash length: '' @ show_nat (length slotHash) @ '', expected 32''))
      else
        (case readBigUInt64LE slotHash 0 of Inl e \<Rightarrow> Inl e | Inr u64_0 \<Rightarrow>
         case readBigUInt64LE slotHash 8 of Inl e \<Rightarrow> Inl e | Inr u64_1 \<Rightarrow>
         case readBigUInt64LE slotHash 16 of Inl e \<Rightarrow> Inl e | Inr u64_2 \<Rightarrow>
         case readBigUInt64LE slotHash 24 of Inl e \<Rightarrow> Inl e | Inr u64_3 \<Rightarrow>
           Inr (u64_0 XOR u64_1 XOR u64_2 XOR u64_3)))"

definition computeWinningTile :: "buffer \<Rightarrow> error + int" where
  "computeWinningTile slotHash =
     (case computeRng slotHash of
        Inl e \<Rightarrow> Inl e
      | Inr rng \<Rightarrow> Inr (bigint_to_number (bigint_rem rng 25)))"

definition shouldSplitReward :: "buffer \<Rightarrow> bool" where
  "shouldSplitReward slotHash =
     (if length slotHash \<noteq> 32 then False
      else
        (case (readUInt16LE slotHash 0, readUInt16LE slotHash 2,
               readUInt16LE slotHash 4, readUInt16LE slotHash 6) of
           (Inr u16_0, Inr u16_1, Inr u16_2, Inr u16_3) \<Rightarrow>
             (u16_0 XOR u16_1 XOR u16_2 XOR u16_3) mod 2 = 0
         | _ \<Rightarrow> False))"

text \<open>
  The specification's words for the outcome rule: the little-endian unsigned value of a
  run of bytes, the four 8-byte words of the seed at offsets 0, 8, 16 and 24, their XOR
  modulo 25; and the four 2-byte words at offsets 0, 2, 4 and 6.
\<close>

definition le_value :: "buffer \<Rightarrow> nat \<Rightarrow> nat \<Rightarrow> int" where
  "le_value buf offset n = (\<Sum>i<n. uint (buf ! (offset + i)) * 256 ^ i)"

definition spec_winning_tile :: "buffer \<Rightarrow> int" where
  "spec_winning_tile seed =
     (le_value seed 0 8 XOR le_value seed 8 8 XOR le_value seed 16 8 XOR le_value seed 24 8) mod 25"

definition spec_split_even :: "buffer \<Rightarrow> bool" where
  "spec_split_even seed =
     even (le_value seed 0 2 XOR le_value seed 2 2 XOR le_value seed 4 2 XOR le_value seed 6 2)"

section \<open>Board decoder (infrastructure/solana/decoders/board.decoder.ts)\<close>

record BoardAccount =
  roundId :: bigint
  startSlot :: bigint
  endSlot :: bigint

definition U64_MAX :: bigint where
  "U64_MAX = 18446744073709551615"

definition isRoundActive :: "BoardAccount \<Rightarrow> bool" where
  "isRoundActive board = (endSlot board \<noteq> U64_MAX)"

definition getRemainingSlots :: "BoardAccount \<Rightarrow> bigint \<Rightarrow> int" where
  "getRemainingSlots board currentSlot =
     (if \<not> isRoundActive board then - 1
      else
        (let remaining = endSlot board - currentSlot
         in if remaining > 0 then bigint_to_number remaining else 0))"

section \<open>Round decoder (infrastructure/solana/decoders/round.decoder.ts)\<close>

text \<open>A public key is held by its base58 text; \<open>equals\<close> compares the keys.\<close>

datatype PublicKey = PublicKey string

fun toBase58 :: "PublicKey \<Rightarrow> string" where
  "toBase58 (PublicKey s) = s"

definition SPLIT_ADDRESS :: PublicKey where
  "SPLIT_ADDRESS = PublicKey ''SpLiT11111111111111111111111111111111111112''"

record RoundAccount =
  id' :: bigint
  deployed :: "bigint list"
  slotHash :: buffer
  counts :: "bigint list"
  expiresAt :: bigint
  motherlode :: bigint
  rentPayer :: PublicKey
  topMiner :: PublicKey
  topMinerReward :: bigint
  totalDeployed :: bigint
  totalVaulted :: bigint
  totalWinnings :: bigint

definition isSlotHashValid :: "buffer \<Rightarrow> bool" where
  "isSlotHashValid h =
     (let allZeros = list_all (\<lambda>b. b = 0) h;
          allOnes = list_all (\<lambda>b. b = 255) h
      in \<not> allZeros \<and> \<not> allOnes)"

definition getTotalMiners :: "RoundAccount \<Rightarrow> bigint" where
  "getTotalMiners rnd = foldl (\<lambda>sum count. sum + count) 0 (counts rnd)"

section \<open>EV calculator (application/services/ev-calculator.ts)\<close>

record PriceQuote =
  oreSol :: number
  solUsd :: number
  oreUsd :: number
  fetchedAt :: int

record MiningCostData =
  evPercent :: number
  fetchedAt_cost :: int

definition LAMPORTS_PER_SOL :: number where
  "LAMPORTS_PER_SOL = Finite 1000000000"

definition ORE_DECIMALS :: number where
  "ORE_DECIMALS = Finite 100000000000"

definition lamportsToSol :: "bigint option \<Rightarrow> number" where
  "lamportsToSol lamports = num_div (Number_of lamports) LAMPORTS_PER_SOL"

definition PROBABILITY_OF_WIN :: number where
  "PROBABILITY_OF_WIN = num_div (Finite 1) (Finite 25)"

definition SOL_PAYOUT_FEE_FACTOR :: number where
  "SOL_PAYOUT_FEE_FACTOR = Finite (9 / 10)"

definition MOTHERLODE_TRIGGER_PROBABILITY :: number where
  "MOTHERLODE_TRIGGER_PROBABILITY = num_div (Finite 1) (Finite 625)"

definition EV_DENOMINATOR :: number where
  "EV_DENOMINATOR = num_sub (Finite 1) (num_mul PROBABILITY_OF_WIN SOL_PAYOUT_FEE_FACTOR)"

definition Number_EPSILON :: number where
  "Number_EPSILON = Finite (1 / 2 ^ 52)"

record TileEvResult =
  tileIndex :: nat
  tileDeployed :: "bigint option"
  minersCount :: "bigint option"
  othersStake :: "bigint option"
  evRatio :: number
  maxProfitable :: bigint

definition computeNetOreValueSol :: "RoundAccount \<Rightarrow> PriceQuote \<Rightarrow> number" where
  "computeNetOreValueSol rnd priceQuote =
     (let motherlodeOre = num_div (Number_bigint (motherlode rnd)) ORE_DECIMALS;
          netOreValueInSol = num_mul (oreSol priceQuote) SOL_PAYOUT_FEE_FACTOR
      in num_mul netOreValueInSol
           (num_add (Finite 1)
              (num_mul MOTHERLODE_TRIGGER_PROBABILITY (Math_max motherlodeOre (Finite 0)))))"

definition computePotFromOthers :: "RoundAccount \<Rightarrow> bigint" where
  "computePotFromOthers rnd = foldl (\<lambda>acc d. acc + d) 0 (deployed rnd)"

definition computeEvRatio :: "number \<Rightarrow> number \<Rightarrow> number \<Rightarrow> number \<Rightarrow> number \<Rightarrow> number" where
  "computeEvRatio othersStakeSol potFromOthersSol exposureBeforeSol stakeSol netOreValueSol =
     (let denominator = num_add othersStakeSol stakeSol
      in if num_le denominator (Finite 0) then PosInfinity
         else
           (let numerator =
                  num_mul PROBABILITY_OF_WIN
                    (num_add
                       (num_mul SOL_PAYOUT_FEE_FACTOR
                          (num_add (num_add potFromOthersSol exposureBeforeSol) stakeSol))
                       netOreValueSol)
            in num_div numerator denominator))"

definition solveMaxProfitableStake :: "number \<Rightarrow> number \<Rightarrow> number \<Rightarrow> number \<Rightarrow> number" where
  "solveMaxProfitableStake othersStakeSol potFromOthersSol exposureBeforeSol netOreValueSol =
     (let numerator =
            num_sub
              (num_mul PROBABILITY_OF_WIN
                 (num_add (num_mul SOL_PAYOUT_FEE_FACTOR (num_add potFromOthersSol exposureBeforeSol))
                    netOreValueSol))
              othersStakeSol
      in if num_le numerator (Finite 0) then Finite 0
         else num_div numerator EV_DENOMINATOR)"

text \<open>The body of the loop over the 25 tile indices.\<close>

definition tileEv :: "RoundAccount \<Rightarrow> number \<Rightarrow> number \<Rightarrow> nat \<Rightarrow> error + TileEvResult" where
  "tileEv rnd potFromOthersSol netOreValueSol i =
     (let exposureBeforeSol = Finite 0;
          dep = index (deployed rnd) i;
          cnt = index (counts rnd) i;
          others = dep;
          othersStakeSol = lamportsToSol others;
          minStakeSol = Math_max (Finite (1 / 1000)) Number_EPSILON;
          ratio = computeEvRatio othersStakeSol potFromOthersSol exposureBeforeSol minStakeSol
                    netOreValueSol;
          maxProfitableSol = solveMaxProfitableStake othersStakeSol potFromOthersSol
                    exposureBeforeSol netOreValueSol
      in case BigInt (Math_floor (num_mul maxProfitableSol (Finite 1000000000))) of
           Inl e \<Rightarrow> Inl e
         | Inr maxP \<Rightarrow>
             Inr \<lparr>tileIndex = i, tileDeployed = dep, minersCount = cnt, othersStake = others,
                  evRatio = ratio, maxProfitable = maxP\<rparr>)"

definition calculateAllTileEvs :: "RoundAccount \<Rightarrow> PriceQuote \<Rightarrow> error + TileEvResult list" where
  "calculateAllTileEvs rnd priceQuote =
     (let potFromOthers = computePotFromOthers rnd;
          potFromOthersSol = lamportsToSol (Some potFromOthers);
          netOreValueSol = computeNetOreValueSol rnd priceQuote
      in for_each (tileEv rnd potFromOthersSol netOreValueSol) [0..<25])"

section \<open>Tile ranker (application/services/tile-ranker.ts)\<close>

record TilePreFin = TileEvResult +
  rankEv :: nat

text \<open>
  \<open>Array.prototype.sort\<close> with a comparator: the sort is stable, an element \<open>x\<close>
  goes after \<open>y\<close> when \<open>cmp x y > 0\<close>, and a NaN from the comparator counts as 0.
  For a consistent comparator the result is the one stably sorted permutation, which
  insertion from the right computes.
\<close>

definition sorts_after :: "number \<Rightarrow> bool" where
  "sorts_after c = (case c of Finite r \<Rightarrow> 0 < r | PosInfinity \<Rightarrow> True | _ \<Rightarrow> False)"

fun insert_sorted :: "('a \<Rightarrow> 'a \<Rightarrow> number) \<Rightarrow> 'a \<Rightarrow> 'a list \<Rightarrow> 'a list" where
  "insert_sorted cmp x [] = [x]"
| "insert_sorted cmp x (y # ys) =
     (if sorts_after (cmp x y) then y # insert_sorted cmp x ys else x # y # ys)"

definition array_sort :: "('a \<Rightarrow> 'a \<Rightarrow> number) \<Rightarrow> 'a list \<Rightarrow> 'a list" where
  "array_sort cmp xs = foldr (insert_sorted cmp) xs []"

definition compareTiles :: "TileEvResult \<Rightarrow> TileEvResult \<Rightarrow> number" where
  "compareTiles a b =
     (if \<not> isFinite (evRatio b) \<and> isFinite (evRatio a) then Finite 1
      else if \<not> isFinite (evRatio a) \<and> isFinite (evRatio b) then Finite (- 1)
      else if strict_neq (evRatio b) (evRatio a) then num_sub (evRatio b) (evRatio a)
      else Number_bigint (maxProfitable b - maxProfitable a))"

definition withRank :: "nat \<times> TileEvResult \<Rightarrow> TilePreFin" where
  "withRank p =
     (case p of (i, tile) \<Rightarrow>
        \<lparr>tileIndex = tileIndex tile, tileDeployed = tileDeployed tile,
         minersCount = minersCount tile, othersStake = othersStake tile,
         evRatio = evRatio tile, maxProfitable = maxProfitable tile, rankEv = i + 1\<rparr>)"

definition rankTilesByEv :: "TileEvResult list \<Rightarrow> TilePreFin list" where
  "rankTilesByEv tiles =
     (let sorted = array_sort compareTiles tiles
      in map withRank (enumerate 0 sorted))"

text \<open>
  The specification's words for the ranking order: \<open>a\<close> ranks strictly ahead of \<open>b\<close>
  when \<open>a\<close> is infinite and \<open>b\<close> finite, or when both are of the same kind and \<open>a\<close>
  has the larger ratio, or the same ratio and the larger maximum profitable stake.
\<close>

fun ratio_greater :: "number \<Rightarrow> number \<Rightarrow> bool" where
  "ratio_greater (Finite a) (Finite b) = (b < a)"
| "ratio_greater PosInfinity (Finite b) = True"
| "ratio_greater PosInfinity NegInfinity = True"
| "ratio_greater (Finite a) NegInfinity = True"
| "ratio_greater x y = False"

definition ranks_ahead :: "'a TileEvResult_scheme \<Rightarrow> 'b TileEvResult_scheme \<Rightarrow> bool" where
  "ranks_ahead a b =
     ((\<not> isFinite (evRatio a) \<and> isFinite (evRatio b))
      \<or> (isFinite (evRatio a) = isFinite (evRatio b)
          \<and> (ratio_greater (evRatio a) (evRatio b)
              \<or> (evRatio a = evRatio b \<and> maxProfitable b < maxProfitable a))))"

section \<open>Board watcher (presentation/board-watcher.ts)\<close>

record WatcherConfig =
  preFinThresholdSlots :: int
  evSnapshotSlots :: int

record WatcherState =
  lastBoard :: "BoardAccount option"
  pricesFetchTriggeredForRound :: "bigint option"
  evSnapshotTriggeredForRound :: "bigint option"

datatype event =
    OnBoardUpdate BoardAccount
  | OnPostFinTrigger bigint BoardAccount
  | OnPricesFetchTrigger BoardAccount int bigint
  | OnEvSnapshotTrigger BoardAccount int bigint

definition initialWatcher :: WatcherState where
  "initialWatcher =
     \<lparr>lastBoard = None, pricesFetchTriggeredForRound = None, evSnapshotTriggeredForRound = None\<rparr>"

text \<open>
  \<open>processBoard\<close>: the watcher's fields after the call and the callbacks it made, in
  order. The current slot is what \<open>getCurrentSlot()\<close> returns during the call.
\<close>

definition postFinStep :: "BoardAccount \<Rightarrow> WatcherState \<Rightarrow> BoardAccount \<Rightarrow> WatcherState \<times> event list" where
  "postFinStep board st previousBoard =
     (if roundId board > roundId previousBoard then
        (st\<lparr>pricesFetchTriggeredForRound := None, evSnapshotTriggeredForRound := None\<rparr>,
         [OnPostFinTrigger (roundId previousBoard) board])
      else (st, []))"

definition pricesStep :: "WatcherConfig \<Rightarrow> BoardAccount \<Rightarrow> int \<Rightarrow> bigint \<Rightarrow> WatcherState \<Rightarrow> WatcherState \<times> event list" where
  "pricesStep cfg board remainingSlots currentSlot st =
     (if remainingSlots \<ge> 0 \<and> remainingSlots \<le> preFinThresholdSlots cfg
         \<and> pricesFetchTriggeredForRound st \<noteq> Some (roundId board) then
        (st\<lparr>pricesFetchTriggeredForRound := Some (roundId board)\<rparr>,
         [OnPricesFetchTrigger board remainingSlots currentSlot])
      else (st, []))"

definition evStep :: "WatcherConfig \<Rightarrow> BoardAccount \<Rightarrow> int \<Rightarrow> bigint \<Rightarrow> WatcherState \<Rightarrow> WatcherState \<times> event list" where
  "evStep cfg board remainingSlots currentSlot st =
     (if remainingSlots \<ge> 0 \<and> remainingSlots \<le> evSnapshotSlots cfg
         \<and> evSnapshotTriggeredForRound st \<noteq> Some (roundId board) then
        (st\<lparr>evSnapshotTriggeredForRound := Some (roundId board)\<rparr>,
         [OnEvSnapshotTrigger board remainingSlots currentSlot])
      else (st, []))"

definition processBoard :: "WatcherConfig \<Rightarrow> WatcherState \<Rightarrow> BoardAccount \<times> bigint \<Rightarrow> WatcherState \<times> event list" where
  "processBoard cfg st input =
     (case input of (board, currentSlot) \<Rightarrow>
        (let previousBoard = lastBoard st;
             st1 = st\<lparr>lastBoard := Some board\<rparr>;
             ev1 = [OnBoardUpdate board];
             (st2, ev2) = (case previousBoard of
                             None \<Rightarrow> (st1, [])
                           | Some prev \<Rightarrow> postFinStep board st1 prev)
         in if isRoundActive board then
              (let remainingSlots = getRemainingSlots board currentSlot;
                   (st3, ev3) = pricesStep cfg board remainingSlots currentSlot st2;
                   (st4, ev4) = evStep cfg board remainingSlots currentSlot st3
               in (st4, ev1 @ ev2 @ ev3 @ ev4))
            else (st2, ev1 @ ev2)))"

text \<open>A run of the watcher over the boards it receives, one after the other.\<close>

fun processBoards :: "WatcherConfig \<Rightarrow> WatcherState \<Rightarrow> (BoardAccount \<times> bigint) list \<Rightarrow> WatcherState \<times> event list" where
  "processBoards cfg st [] = (st, [])"
| "processBoards cfg st (input # rest) =
     (let (st1, ev1) = processBoard cfg st input;
          (st2, ev2) = processBoards cfg st1 rest
      in (st2, ev1 @ ev2))"

fun evSnapshotRound :: "event \<Rightarrow> bigint option" where
  "evSnapshotRound (OnEvSnapshotTrigger board r s) = Some (roundId board)"
| "evSnapshotRound e = None"

fun pricesFetchRound :: "event \<Rightarrow> bigint option" where
  "pricesFetchRound (OnPricesFetchTrigger board r s) = Some (roundId board)"
| "pricesFetchRound e = None"

definition evSnapshotCount :: "event list \<Rightarrow> bigint \<Rightarrow> nat" where
  "evSnapshotCount evs r = length (filter (\<lambda>e. evSnapshotRound e = Some r) evs)"

definition pricesFetchCount :: "event list \<Rightarrow> bigint \<Rightarrow> nat" where
  "pricesFetchCount evs r = length (filter (\<lambda>e. pricesFetchRound e = Some r) evs)"

section \<open>Closed forms and sample inputs\<close>

text \<open>
  The value of the EV formulas on finite arguments, written over the reals, and the
  inputs at which the theorems below are instantiated.
\<close>

definition netOre :: "real \<Rightarrow> real \<Rightarrow> real" where
  "netOre p m = p * (9 / 10) * (1 + 1 / 625 * max (m / 100000000000) 0)"

definition maxStake :: "real \<Rightarrow> real \<Rightarrow> real \<Rightarrow> real \<Rightarrow> real" where
  "maxStake others pot expo ore =
    (let n = 1 / 25 * (9 / 10 * (pot + expo) + ore) - others
     in if n \<le> 0 then 0 else n / (1 - 1 / 25 * (9 / 10)))"

definition tileEvFinite :: "RoundAccount \<Rightarrow> real \<Rightarrow> real \<Rightarrow> nat \<Rightarrow> TileEvResult" where
  "tileEvFinite rnd pot ore i =
     \<lparr>tileIndex = i, tileDeployed = Some (deployed rnd ! i), minersCount = index (counts rnd) i,
          othersStake = Some (deployed rnd ! i),
          evRatio = Finite (1 / 25 * (9 / 10 * (pot + 0 + 1 / 1000) + ore)
                      / (real_of_int (bigint_to_number (deployed rnd ! i)) / 1000000000 + 1 / 1000)),
          maxProfitable = \<lfloor>maxStake (real_of_int (bigint_to_number (deployed rnd ! i)) / 1000000000) pot 0 ore * 1000000000\<rfloor>\<rparr>"

definition emptyRound :: RoundAccount where
  "emptyRound = \<lparr>id' = 1, deployed = replicate 25 0, slotHash = replicate 32 0,
     counts = replicate 25 0, expiresAt = 0, motherlode = 0, rentPayer = PublicKey ''a'', topMiner = PublicKey ''b'',
     topMinerReward = 0, totalDeployed = 0, totalVaulted = 0, totalWinnings = 0\<rparr>"

definition unitPrice :: PriceQuote where
  "unitPrice = \<lparr>oreSol = Finite 1, solUsd = Finite 1, oreUsd = Finite 1, fetchedAt = 0\<rparr>"

definition tileA :: TileEvResult where
  "tileA = \<lparr>tileIndex = 0, tileDeployed = Some 5, minersCount = Some 1, othersStake = Some 5,
            evRatio = Finite 2, maxProfitable = 7\<rparr>"

definition tileB :: TileEvResult where
  "tileB = \<lparr>tileIndex = 1, tileDeployed = Some 0, minersCount = Some 0, othersStake = Some 0,
            evRatio = PosInfinity, maxProfitable = 9\<rparr>"

definition tileC :: TileEvResult where
  "tileC = \<lparr>tileIndex = 2, tileDeployed = Some 5, minersCount = Some 1, othersStake = Some 5,
            evRatio = Finite 2, maxProfitable = 8\<rparr>"

definition zeroTiles :: "TileEvResult list" where
  "zeroTiles = map (tileEvFinite emptyRound 0 (9 / 10)) [0..<25]"

section \<open>Entities (domain/entities)\<close>

text \<open>
  Field names follow the source; where two interfaces share a field name, the later
  record's field carries the record as a suffix. A tile field typed \<open>bigint\<close> that was
  read from an array may be \<open>undefined\<close> at run time, so it is an option.
\<close>

record TilePostFin =
  tileIndex_post :: nat
  deployedFinal :: "bigint option"
  countFinal :: "bigint option"

record RoundPreFin =
  roundId_pre :: bigint
  tsPre :: int
  slotPre :: bigint
  remainingSlots :: int
  boardStartSlot :: bigint
  boardEndSlot :: bigint
  price :: PriceQuote
  totalDeployed_pre :: bigint
  totalMiners :: bigint
  latencyFetchMs :: int
  latencyEvMs :: int
  miningCostPct :: number
  tiles_pre :: "TilePreFin list"

record RoundPostFin =
  roundId_post :: bigint
  tsPost :: int
  slotHash_post :: buffer
  rngU64 :: bigint
  winningTile :: int
  splitTopMiner :: bool
  topMinerReward_post :: bigint
  motherlodePaid :: bigint
  numWinners :: "bigint option"
  totalWinnings_post :: bigint
  totalVaulted_post :: bigint
  rentPayer_post :: string
  topMinerPubkey :: string
  tiles_post :: "TilePostFin list"

section \<open>The store (infrastructure/database)\<close>

text \<open>
  The two tables of the embedded schema. A round row has its pre-fin columns, all NOT
  NULL, and its post-fin columns, all nullable and NULL until the one UPDATE statement of
  the completion sets them. A tile row is keyed by round id and tile index. The values
  are what the repository binds: \<open>Number(...)\<close> of every bigint. The driver binds a
  number as a double and SQLite stores a NaN as NULL.
\<close>

record round_cols =
  ts_pre :: number
  slot_pre :: number
  remaining_slots :: number
  board_start_slot :: number
  board_end_slot :: number
  price_ore_sol :: number
  price_sol_usd :: number
  price_ore_usd :: number
  price_fetched_at :: number
  total_deployed :: number
  total_miners :: number
  latency_fetch_ms :: number
  latency_ev_ms :: number
  mining_cost_pct :: number

record post_cols =
  ts_post :: "number option"
  slot_hash :: "buffer option"
  rng_u64 :: "number option"
  winning_tile :: "number option"
  split_top_miner :: "number option"
  top_miner_reward :: "number option"
  motherlode_paid :: "number option"
  num_winners :: "number option"
  total_winnings :: "number option"
  total_vaulted :: "number option"
  rent_payer :: "string option"
  top_miner_pubkey :: "string option"

record round_row =
  pre_cols :: round_cols
  post_cols :: post_cols

record tile_row =
  deployed_col :: number
  miners_count :: number
  others_stake :: number
  ev_ratio :: number
  max_profitable :: number
  rank_ev :: number
  deployed_final :: "number option"
  count_final :: "number option"

record database =
  rounds_tbl :: "int \<rightharpoonup> round_row"
  tiles_tbl :: "int \<times> int \<rightharpoonup> tile_row"

text \<open>The post-fin columns of a freshly inserted row: NULL, and the split flag's default 0.\<close>

definition pending_cols :: post_cols where
  "pending_cols =
     \<lparr>ts_post = None, slot_hash = None, rng_u64 = None, winning_tile = None,
      split_top_miner = Some (Finite 0), top_miner_reward = None, motherlode_paid = None,
      num_winners = None, total_winnings = None, total_vaulted = None, rent_payer = None,
      top_miner_pubkey = None\<rparr>"

text \<open>Binding a number to a nullable column, and the NOT NULL check on bound values.\<close>

definition bind :: "number \<Rightarrow> number option" where
  "bind v = (if v = NaN then None else Some v)"

definition not_null :: "number list \<Rightarrow> bool" where
  "not_null vs = list_all (\<lambda>v. v \<noteq> NaN) vs"

definition num :: "int \<Rightarrow> number" where
  "num n = Finite (of_int n)"

definition round_key :: "bigint \<Rightarrow> int" where
  "round_key rid = bigint_to_number rid"

subsection \<open>Statements\<close>

text \<open>
  \<open>round_id\<close> is the table's INTEGER PRIMARY KEY, so the bound double has to convert to a
  signed 64-bit integer: outside that range the insert fails with a datatype mismatch,
  before any constraint is looked at.
\<close>

definition stmtInsertRound :: "int \<Rightarrow> round_cols \<Rightarrow> database \<Rightarrow> error + database" where
  "stmtInsertRound key cols d =
     (if \<not> (- (2 ^ 63) \<le> key \<and> key < 2 ^ 63)
      then Inl (SqliteError ''datatype mismatch'')
      else if \<not> not_null [ts_pre cols, slot_pre cols, remaining_slots cols, board_start_slot cols,
            board_end_slot cols, price_ore_sol cols, price_sol_usd cols, price_ore_usd cols,
            price_fetched_at cols, total_deployed cols, total_miners cols,
            latency_fetch_ms cols, latency_ev_ms cols, mining_cost_pct cols]
      then Inl (SqliteError ''NOT NULL constraint failed: rounds'')
      else if rounds_tbl d key \<noteq> None
      then Inl (SqliteError ''UNIQUE constraint failed: rounds.round_id'')
      else Inr (d\<lparr>rounds_tbl := (rounds_tbl d)(key \<mapsto> \<lparr>pre_cols = cols, post_cols = pending_cols\<rparr>)\<rparr>))"

definition stmtInsertTile :: "int \<Rightarrow> TilePreFin \<Rightarrow> database \<Rightarrow> error + database" where
  "stmtInsertTile key tile d =
     (let i = int (tileIndex tile);
          row = \<lparr>deployed_col = Number_of (tileDeployed tile),
                 miners_count = Number_of (minersCount tile),
                 others_stake = Number_of (othersStake tile),
                 ev_ratio = evRatio tile,
                 max_profitable = Number_bigint (maxProfitable tile),
                 rank_ev = num (int (rankEv tile)),
                 deployed_final = None, count_final = None\<rparr>
      in if \<not> not_null [deployed_col row, miners_count row, others_stake row, ev_ratio row,
                          max_profitable row, rank_ev row]
         then Inl (SqliteError ''NOT NULL constraint failed: tiles'')
         else if \<not> (0 \<le> i \<and> i \<le> 24 \<and> 1 \<le> rankEv tile \<and> rankEv tile \<le> 25)
         then Inl (SqliteError ''CHECK constraint failed'')
         else if tiles_tbl d (key, i) \<noteq> None
         then Inl (SqliteError ''UNIQUE constraint failed: tiles.round_id, tiles.tile_index'')
         else if rounds_tbl d key = None
         then Inl (SqliteError ''FOREIGN KEY constraint failed'')
         else Inr (d\<lparr>tiles_tbl := (tiles_tbl d)((key, i) \<mapsto> row)\<rparr>))"

definition stmtUpdateRoundPostFin :: "int \<Rightarrow> RoundPostFin \<Rightarrow> database \<Rightarrow> error + database" where
  "stmtUpdateRoundPostFin key data d =
     (case rounds_tbl d key of
        None \<Rightarrow> Inr d
      | Some row \<Rightarrow>
          if \<not> (0 \<le> winningTile data \<and> winningTile data \<le> 24)
          then Inl (SqliteError ''CHECK constraint failed'')
          else if length (slotHash_post data) \<noteq> 32
          then Inl (SqliteError ''CHECK constraint failed'')
          else Inr (d\<lparr>rounds_tbl := (rounds_tbl d)(key \<mapsto> row\<lparr>post_cols :=
                 \<lparr>ts_post = bind (num (tsPost data)),
                  slot_hash = Some (slotHash_post data),
                  rng_u64 = bind (Number_bigint (rngU64 data)),
                  winning_tile = bind (num (winningTile data)),
                  split_top_miner = Some (Finite (if splitTopMiner data then 1 else 0)),
                  top_miner_reward = bind (Number_bigint (topMinerReward_post data)),
                  motherlode_paid = bind (Number_bigint (motherlodePaid data)),
                  num_winners = bind (Number_of (numWinners data)),
                  total_winnings = bind (Number_bigint (totalWinnings_post data)),
                  total_vaulted = bind (Number_bigint (totalVaulted_post data)),
                  rent_payer = Some (rentPayer_post data),
                  top_miner_pubkey = Some (topMinerPubkey data)\<rparr>\<rparr>)\<rparr>))"

definition stmtUpdateTilePostFin :: "int \<Rightarrow> TilePostFin \<Rightarrow> database \<Rightarrow> error + database" where
  "stmtUpdateTilePostFin key tile d =
     (case tiles_tbl d (key, int (tileIndex_post tile)) of
        None \<Rightarrow> Inr d
      | Some row \<Rightarrow>
          Inr (d\<lparr>tiles_tbl := (tiles_tbl d)((key, int (tileIndex_post tile)) \<mapsto>
                 row\<lparr>deployed_final := bind (Number_of (deployedFinal tile)),
                     count_final := bind (Number_of (countFinal tile))\<rparr>)\<rparr>))"

text \<open>
  \<open>DELETE FROM rounds WHERE round_id = ?\<close>, with the tiles' foreign key declared
  ON DELETE CASCADE and foreign keys switched on.
\<close>

definition stmtDeleteRound :: "int \<Rightarrow> database \<Rightarrow> database" where
  "stmtDeleteRound key d =
     d\<lparr>rounds_tbl := (rounds_tbl d)(key := None),
       tiles_tbl := (\<lambda>k. if fst k = key then None else tiles_tbl d k)\<rparr>"

subsection \<open>Transactions\<close>

text \<open>
  The statements of a transaction run in order. The driver can also raise on any
  statement for a reason outside the data (disk, lock): \<open>fault\<close> names the position of
  the statement that does, if any. When a statement raises, the transaction rolls back
  and the exception propagates.
\<close>

fun run_all :: "nat option \<Rightarrow> nat \<Rightarrow> (database \<Rightarrow> error + database) list \<Rightarrow> database
    \<Rightarrow> error + database" where
  "run_all fault n [] d = Inr d"
| "run_all fault n (stmt # rest) d =
     (if fault = Some n then Inl (SqliteError ''disk I/O error'')
      else (case stmt d of
              Inl e \<Rightarrow> Inl e
            | Inr d' \<Rightarrow> run_all fault (Suc n) rest d'))"

definition transaction :: "(database \<Rightarrow> error + database) \<Rightarrow> database \<Rightarrow> (error + unit) \<times> database" where
  "transaction body d = (case body d of Inl e \<Rightarrow> (Inl e, d) | Inr d' \<Rightarrow> (Inr (), d'))"

section \<open>The world of a use case\<close>

text \<open>
  A use case runs against the store and the notifier. The world records the store, the
  calls made to the repository, the chain, the fetchers and the notifier, in order, and
  the lines logged. A logged bigint is held by its value.
\<close>

datatype logval = LInt int | LStr string | LBool bool

type_synonym log_entry = "string \<times> string \<times> (string \<times> logval) list"

datatype call =
    RepoExists bigint
  | RepoInsertPreFin RoundPreFin
  | RepoCompletePostFin RoundPostFin
  | RepoDeleteRound bigint
  | FetchRoundState bigint
  | FetchPrice
  | FetchMiningCost
  | NotifyFailure "bigint option" string "(string \<times> logval) list"

record world =
  db :: database
  calls :: "call list"
  logs :: "log_entry list"

text \<open>
  What the outside supplies during one run: the clock readings, the outcome of each
  fetch after its retries, and where the driver raises for a reason outside the data
  (disk, lock). \<open>io_fault\<close> is the position of the statement at which it raises during
  the run's insert or update transaction, if any. \<open>delete_fault n\<close> says whether it
  raises at the DELETE statement of the \<open>n\<close>-th \<open>deleteRound\<close> call recorded in the
  world (counted from 0). The existence query only reads and is taken to return.
\<close>

record env =
  startTime :: int
  roundStateFetchLatency :: int
  priceFetchLatency :: int
  evLatency :: int
  chain :: "bigint \<Rightarrow> error + RoundAccount"
  priceFetch :: "error + PriceQuote"
  miningCostFetch :: "error + MiningCostData"
  io_fault :: "nat option"
  delete_fault :: "nat \<Rightarrow> bool"

definition logger :: "string \<Rightarrow> string \<Rightarrow> (string \<times> logval) list \<Rightarrow> world \<Rightarrow> world" where
  "logger level msg data w = w\<lparr>logs := logs w @ [(level, msg, data)]\<rparr>"

definition called :: "call \<Rightarrow> world \<Rightarrow> world" where
  "called c w = w\<lparr>calls := calls w @ [c]\<rparr>"

fun failureNotification :: "call \<Rightarrow> (bigint option \<times> string) list" where
  "failureNotification (NotifyFailure rid reason details) = [(rid, reason)]"
| "failureNotification c = []"

definition notifications :: "world \<Rightarrow> (bigint option \<times> string) list" where
  "notifications w = concat (map failureNotification (calls w))"

subsection \<open>Repository (SqliteRoundRepository)\<close>

definition repo_exists :: "bigint \<Rightarrow> world \<Rightarrow> bool \<times> world" where
  "repo_exists rid w =
     (rounds_tbl (db w) (round_key rid) \<noteq> None, called (RepoExists rid) w)"

text \<open>
  \<open>deleteRound\<close> runs the DELETE statement outside any transaction and returns whether a
  row was removed. When the driver raises, nothing is removed and the exception
  propagates to the caller.
\<close>

fun is_delete :: "call \<Rightarrow> bool" where
  "is_delete (RepoDeleteRound rid) = True"
| "is_delete c = False"

definition delete_attempts :: "world \<Rightarrow> nat" where
  "delete_attempts w = length (filter is_delete (calls w))"

definition repo_deleteRound :: "env \<Rightarrow> bigint \<Rightarrow> world \<Rightarrow> (error + bool) \<times> world" where
  "repo_deleteRound e rid w =
     (if delete_fault e (delete_attempts w)
      then (Inl (SqliteError ''disk I/O error''), called (RepoDeleteRound rid) w)
      else
        (let changed = (rounds_tbl (db w) (round_key rid) \<noteq> None);
             w1 = called (RepoDeleteRound rid) (w\<lparr>db := stmtDeleteRound (round_key rid) (db w)\<rparr>)
         in if changed then (Inr True, logger ''warn'' ''Deleted round'' [(''roundId'', LInt rid)] w1)
            else (Inr False, w1)))"

definition round_cols_of :: "RoundPreFin \<Rightarrow> round_cols" where
  "round_cols_of data =
     \<lparr>ts_pre = num (tsPre data),
      slot_pre = Number_bigint (slotPre data),
      remaining_slots = num (remainingSlots data),
      board_start_slot = Number_bigint (boardStartSlot data),
      board_end_slot = Number_bigint (boardEndSlot data),
      price_ore_sol = oreSol (price data),
      price_sol_usd = solUsd (price data),
      price_ore_usd = oreUsd (price data),
      price_fetched_at = num (fetchedAt (price data)),
      total_deployed = Number_bigint (totalDeployed_pre data),
      total_miners = Number_bigint (totalMiners data),
      latency_fetch_ms = num (latencyFetchMs data),
      latency_ev_ms = num (latencyEvMs data),
      mining_cost_pct = miningCostPct data\<rparr>"

definition repo_insertPreFin :: "nat option \<Rightarrow> RoundPreFin \<Rightarrow> world \<Rightarrow> (error + unit) \<times> world" where
  "repo_insertPreFin fault data w =
     (let key = round_key (roundId_pre data);
          stmts = stmtInsertRound key (round_cols_of data)
                  # map (stmtInsertTile key) (tiles_pre data);
          (r, d) = transaction (run_all fault 0 stmts) (db w);
          w1 = called (RepoInsertPreFin data) (w\<lparr>db := d\<rparr>)
      in case r of
           Inl e \<Rightarrow> (Inl e, w1)
         | Inr u \<Rightarrow> (Inr (), logger ''info'' ''Inserted pre-fin data''
                                 [(''roundId'', LInt (roundId_pre data))] w1))"

definition repo_completePostFin :: "nat option \<Rightarrow> RoundPostFin \<Rightarrow> world \<Rightarrow> (error + unit) \<times> world" where
  "repo_completePostFin fault data w =
     (let key = round_key (roundId_post data);
          stmts = stmtUpdateRoundPostFin key data
                  # map (stmtUpdateTilePostFin key) (tiles_post data);
          (r, d) = transaction (run_all fault 0 stmts) (db w);
          w1 = called (RepoCompletePostFin data) (w\<lparr>db := d\<rparr>)
      in case r of
           Inl e \<Rightarrow> (Inl e, w1)
         | Inr u \<Rightarrow> (Inr (), logger ''info'' ''Completed post-fin data''
                                 [(''roundId'', LInt (roundId_post data)),
                                  (''winningTile'', LInt (winningTile data))] w1))"

subsection \<open>Notifier and fetchers\<close>

text \<open>
  The notifier swallows its own failures (\<open>DiscordNotifier.sendEmbed\<close>), so a
  notification is a call that always returns. \<open>fetchRoundState\<close> returns the account or
  throws after its retries; \<open>fetchRoundStateOrNull\<close> turns the exception into null.
\<close>

definition notifyFailure :: "bigint option \<Rightarrow> string \<Rightarrow> (string \<times> logval) list \<Rightarrow> world \<Rightarrow> world" where
  "notifyFailure rid reason details w = called (NotifyFailure rid reason details) w"

definition fetchRoundState :: "env \<Rightarrow> bigint \<Rightarrow> world \<Rightarrow> (error + RoundAccount) \<times> world" where
  "fetchRoundState e rid w = (chain e rid, called (FetchRoundState rid) w)"

definition fetchRoundStateOrNull :: "env \<Rightarrow> bigint \<Rightarrow> world \<Rightarrow> RoundAccount option \<times> world" where
  "fetchRoundStateOrNull e rid w =
     (case fetchRoundState e rid w of
        (Inl err, w1) \<Rightarrow> (None, w1)
      | (Inr roundState, w1) \<Rightarrow> (Some roundState, w1))"

section \<open>Post-fin completion (application/use-cases/complete-post-fin.ts)\<close>

record PostFinContext =
  previousRoundId :: bigint
  newBoard :: BoardAccount

text \<open>
  \<open>handleFailure\<close> deletes the round and then notifies. The delete is not guarded: when
  it throws, \<open>handleFailure\<close> throws (\<open>Inl\<close>) before the notification.
\<close>

definition handleFailure :: "env \<Rightarrow> bigint \<Rightarrow> string \<Rightarrow> world \<Rightarrow> (error + unit) \<times> world" where
  "handleFailure e rid reason w =
     (case repo_deleteRound e rid w of
        (Inl err, w1) \<Rightarrow> (Inl err, w1)
      | (Inr deleted, w1) \<Rightarrow>
          (let w2 = (if deleted
                     then logger ''warn'' ''Deleted incomplete round'' [(''roundId'', LInt rid)] w1
                     else w1)
           in (Inr (), notifyFailure (Some rid) reason [] w2)))"

text \<open>\<open>await handleFailure(...); return false\<close>.\<close>

definition returnFalseAfter :: "(error + unit) \<times> world \<Rightarrow> (error + bool) \<times> world" where
  "returnFalseAfter r = (case r of (Inl err, w) \<Rightarrow> (Inl err, w) | (Inr u, w) \<Rightarrow> (Inr False, w))"

definition tilePostFin :: "RoundAccount \<Rightarrow> nat \<Rightarrow> TilePostFin" where
  "tilePostFin roundState i =
     \<lparr>tileIndex_post = i, deployedFinal = index (deployed roundState) i,
      countFinal = index (counts roundState) i\<rparr>"

definition buildPostFin :: "env \<Rightarrow> bigint \<Rightarrow> RoundAccount \<Rightarrow> bigint \<Rightarrow> int \<Rightarrow> RoundPostFin" where
  "buildPostFin e rid roundState rng tile =
     \<lparr>roundId_post = rid,
      tsPost = startTime e,
      slotHash_post = slotHash roundState,
      rngU64 = rng,
      winningTile = tile,
      splitTopMiner = (topMiner roundState = SPLIT_ADDRESS),
      topMinerReward_post = topMinerReward roundState,
      motherlodePaid = motherlode roundState,
      numWinners = (if 0 \<le> tile then index (counts roundState) (nat tile) else None),
      totalWinnings_post = totalWinnings roundState,
      totalVaulted_post = totalVaulted roundState,
      rentPayer_post = toBase58 (rentPayer roundState),
      topMinerPubkey = toBase58 (topMiner roundState),
      tiles_post = map (tilePostFin roundState) [0..<25]\<rparr>"

text \<open>
  The steps of the \<open>try\<close> block once the round state is fetched and its slot hash
  validated: the RNG, the winning tile, the record, the update, the success log.
  \<open>Inl\<close> is an exception that reaches the \<open>catch\<close>. After the update,
  \<open>postFin.numWinners.toString()\<close> in the success log throws a TypeError when the
  counts array had no entry at the winning tile.
\<close>

definition completeValidRound :: "env \<Rightarrow> bigint \<Rightarrow> RoundAccount \<Rightarrow> world \<Rightarrow> (error + bool) \<times> world" where
  "completeValidRound e rid rs w2 =
     (case computeRng (slotHash rs) of
        Inl err \<Rightarrow> (Inl err, w2)
      | Inr rng \<Rightarrow>
     (case computeWinningTile (slotHash rs) of
        Inl err \<Rightarrow> (Inl err, w2)
      | Inr tile \<Rightarrow>
          (let postFin = buildPostFin e rid rs rng tile
           in case repo_completePostFin (io_fault e) postFin w2 of
                (Inl err, w3) \<Rightarrow> (Inl err, w3)
              | (Inr u, w3) \<Rightarrow>
                  (case numWinners postFin of
                     None \<Rightarrow>
                       (Inl (TypeError ''Cannot read properties of undefined (reading toString)''),
                        w3)
                   | Some n \<Rightarrow>
                       (Inr True,
                        logger ''info'' ''Post-fin completion successful''
                          [(''roundId'', LInt rid), (''winningTile'', LInt tile),
                           (''numWinners'', LInt n),
                           (''totalWinnings'', LInt (totalWinnings rs))] w3)))))"

text \<open>The body of the \<open>try\<close> block.\<close>

definition completePostFin_try :: "env \<Rightarrow> bigint \<Rightarrow> world \<Rightarrow> (error + bool) \<times> world" where
  "completePostFin_try e rid w =
     (let (exists, w1) = repo_exists rid w
      in if \<not> exists then
           (Inr True,
            logger ''warn'' ''Round not found in DB, skipping post-fin'' [(''roundId'', LInt rid)] w1)
         else
           (let (roundState, w2) = fetchRoundStateOrNull e rid w1
            in case roundState of
                 None \<Rightarrow>
                   returnFalseAfter
                     (handleFailure e rid ''Round account not found on-chain''
                        (logger ''error'' ''Round account not found on-chain''
                           [(''roundId'', LInt rid)] w2))
               | Some rs \<Rightarrow>
                   if \<not> isSlotHashValid (slotHash rs) then
                     returnFalseAfter
                       (handleFailure e rid ''Invalid slot hash (refund round)''
                          (logger ''error'' ''Invalid slot hash (all zeros)''
                             [(''roundId'', LInt rid)] w2))
                   else completeValidRound e rid rs w2))"

text \<open>
  \<open>completePostFin\<close>: the value the promise resolves to, or \<open>Inl\<close> when it rejects,
  which happens when \<open>handleFailure\<close> throws inside the \<open>catch\<close>.
\<close>

definition completePostFin :: "env \<Rightarrow> PostFinContext \<Rightarrow> world \<Rightarrow> (error + bool) \<times> world" where
  "completePostFin e context' w =
     (let rid = previousRoundId context';
          w0 = logger ''info'' ''Starting post-fin completion''
                 [(''roundId'', LInt rid), (''newRoundId'', LInt (roundId (newBoard context')))] w
      in case completePostFin_try e rid w0 of
           (Inr ok, w1) \<Rightarrow> (Inr ok, w1)
         | (Inl err, w1) \<Rightarrow>
             returnFalseAfter
               (handleFailure e rid (''Post-fin completion failed: '' @ message err)
                  (logger ''error'' ''Post-fin completion failed''
                     [(''roundId'', LInt rid), (''error'', LStr (message err))] w1)))"

text \<open>The placeholder board that startup recovery passes as \<open>newBoard\<close>.\<close>

definition recoveryBoard :: "bigint \<Rightarrow> BoardAccount" where
  "recoveryBoard rid = \<lparr>roundId = rid + 1, startSlot = 0, endSlot = 0\<rparr>"

section \<open>Pre-fin collection (application/use-cases/collect-pre-fin.ts)\<close>

record PreFinContext =
  board :: BoardAccount
  remainingSlots_ctx :: int
  currentSlot :: bigint

record CachedPhase1Data =
  priceQuote :: PriceQuote
  miningCost :: MiningCostData
  fetchedAt_cache :: int

text \<open>
  The prices of phase 2: the cache of phase 1, or both fetchers started together
  (\<open>Promise.all\<close>), which throws when one of them fails.
\<close>

definition getPrices :: "env \<Rightarrow> CachedPhase1Data option \<Rightarrow> world
    \<Rightarrow> (error + PriceQuote \<times> MiningCostData \<times> int) \<times> world" where
  "getPrices e cachedData w =
     (case cachedData of
        Some c \<Rightarrow>
          (Inr (priceQuote c, miningCost c, 0),
           logger ''debug'' ''Using cached Phase 1 data'' [] w)
      | None \<Rightarrow>
          (let w1 = called FetchMiningCost (called FetchPrice
                      (logger ''warn'' ''No cached prices, fetching now (Phase 1 was missed)'' [] w))
           in case priceFetch e of
                Inl err \<Rightarrow> (Inl err, w1)
              | Inr pq \<Rightarrow>
                  (case miningCostFetch e of
                     Inl err \<Rightarrow> (Inl err, w1)
                   | Inr mc \<Rightarrow> (Inr (pq, mc, priceFetchLatency e), w1))))"

definition buildPreFin :: "env \<Rightarrow> PreFinContext \<Rightarrow> PriceQuote \<Rightarrow> MiningCostData \<Rightarrow> int
    \<Rightarrow> RoundAccount \<Rightarrow> TilePreFin list \<Rightarrow> RoundPreFin" where
  "buildPreFin e context' pq mc priceLatency roundState rankedTiles =
     \<lparr>roundId_pre = roundId (board context'),
      tsPre = startTime e,
      slotPre = currentSlot context',
      remainingSlots = remainingSlots_ctx context',
      boardStartSlot = startSlot (board context'),
      boardEndSlot = endSlot (board context'),
      price = pq,
      totalDeployed_pre = totalDeployed roundState,
      totalMiners = getTotalMiners roundState,
      latencyFetchMs = roundStateFetchLatency e + priceLatency,
      latencyEvMs = evLatency e,
      miningCostPct = evPercent mc,
      tiles_pre = rankedTiles\<rparr>"

definition collectPreFin_try :: "env \<Rightarrow> PreFinContext \<Rightarrow> CachedPhase1Data option \<Rightarrow> world
    \<Rightarrow> (error + bool) \<times> world" where
  "collectPreFin_try e context' cachedData w =
     (let rid = roundId (board context');
          (exists, w1) = repo_exists rid w
      in if exists then
           (Inr True, logger ''warn'' ''Round already exists, skipping'' [(''roundId'', LInt rid)] w1)
         else
           (case getPrices e cachedData w1 of
              (Inl err, w2) \<Rightarrow> (Inl err, w2)
            | (Inr (pq, mc, priceLatency), w2) \<Rightarrow>
                (case fetchRoundState e rid w2 of
                   (Inl err, w3) \<Rightarrow> (Inl err, w3)
                 | (Inr roundState, w3) \<Rightarrow>
                     (let w4 = logger ''debug'' ''Round state fetched''
                                 [(''totalDeployed'', LInt (totalDeployed roundState))] w3
                      in case calculateAllTileEvs roundState pq of
                           Inl err \<Rightarrow> (Inl err, w4)
                         | Inr tileEvs \<Rightarrow>
                             (let rankedTiles = rankTilesByEv tileEvs;
                                  preFin = buildPreFin e context' pq mc priceLatency roundState
                                             rankedTiles
                              in case repo_insertPreFin (io_fault e) preFin w4 of
                                   (Inl err, w5) \<Rightarrow> (Inl err, w5)
                                 | (Inr u, w5) \<Rightarrow>
                                     (Inr True,
                                      logger ''info'' ''Phase 2: EV snapshot completed''
                                        [(''roundId'', LInt rid),
                                         (''usedCachedPrices'', LBool (cachedData \<noteq> None)),
                                         (''totalDeployed'', LInt (totalDeployed roundState))]
                                        w5))))))"

definition collectPreFin :: "env \<Rightarrow> PreFinContext \<Rightarrow> CachedPhase1Data option \<Rightarrow> world
    \<Rightarrow> bool \<times> world" where
  "collectPreFin e context' cachedData w =
     (let rid = roundId (board context');
          w0 = logger ''info'' ''Phase 2: Starting EV snapshot''
                 [(''roundId'', LInt rid), (''remainingSlots'', LInt (remainingSlots_ctx context')),
                  (''usedCachedPrices'', LBool (cachedData \<noteq> None))] w
      in case collectPreFin_try e context' cachedData w0 of
           (Inr ok, w1) \<Rightarrow> (ok, w1)
         | (Inl err, w1) \<Rightarrow>
             (False,
              notifyFailure (Some rid) (''EV snapshot failed: '' @ message err)
                [(''remainingSlots'', LInt (remainingSlots_ctx context')),
                 (''phase'', LStr ''Phase 2 (EV Snapshot)'')]
                (logger ''error'' ''Phase 2: EV snapshot failed''
                   [(''roundId'', LInt rid), (''error'', LStr (message err))] w1)))"

text \<open>
  The foreign key of the tiles table, as an invariant of the store: every tile row
  belongs to a round row.
\<close>

definition foreign_keys_hold :: "database \<Rightarrow> bool" where
  "foreign_keys_hold d = (\<forall>k i. tiles_tbl d (k, i) \<noteq> None \<longrightarrow> rounds_tbl d k \<noteq> None)"

section \<open>Watcher invariants and sample boards\<close>

text \<open>
  When a trigger fires in one \<open>processBoard\<close> call, and what the fired-flags say about
  the callbacks made so far. These are used in the proofs about the watcher.
\<close>

definition b5 :: BoardAccount where "b5 = \<lparr>roundId = 5, startSlot = 0, endSlot = 100\<rparr>"

definition b6 :: BoardAccount where "b6 = \<lparr>roundId = 6, startSlot = 100, endSlot = 200\<rparr>"

definition cfg0 :: WatcherConfig where "cfg0 = \<lparr>preFinThresholdSlots = 15, evSnapshotSlots = 5\<rparr>"

definition ev_fires :: "WatcherConfig \<Rightarrow> WatcherState \<Rightarrow> BoardAccount \<Rightarrow> bigint \<Rightarrow> bool" where
  "ev_fires cfg st b s =
     (0 \<le> getRemainingSlots b s \<and> getRemainingSlots b s \<le> evSnapshotSlots cfg
      \<and> (case lastBoard st of
            Some p \<Rightarrow> roundId p < roundId b \<or> evSnapshotTriggeredForRound st \<noteq> Some (roundId b)
          | None \<Rightarrow> evSnapshotTriggeredForRound st \<noteq> Some (roundId b)))"

definition ev_inv :: "WatcherState \<Rightarrow> event list \<Rightarrow> bool" where
  "ev_inv st hist =
     ((\<forall>r. evSnapshotTriggeredForRound st = Some r \<longrightarrow> evSnapshotCount hist r = 1)
      \<and> (case lastBoard st of
            None \<Rightarrow> \<forall>r. evSnapshotCount hist r = 0
          | Some p \<Rightarrow>
              \<forall>r. evSnapshotCount hist r \<le> 1
                \<and> (roundId p < r \<longrightarrow> evSnapshotCount hist r = 0)
                \<and> (r = roundId p \<and> evSnapshotTriggeredForRound st \<noteq> Some r \<longrightarrow>
                     evSnapshotCount hist r = 0)))"

definition prices_fires :: "WatcherConfig \<Rightarrow> WatcherState \<Rightarrow> BoardAccount \<Rightarrow> bigint \<Rightarrow> bool" where
  "prices_fires cfg st b s =
     (0 \<le> getRemainingSlots b s \<and> getRemainingSlots b s \<le> preFinThresholdSlots cfg
      \<and> (case lastBoard st of
            Some p \<Rightarrow> roundId p < roundId b \<or> pricesFetchTriggeredForRound st \<noteq> Some (roundId b)
          | None \<Rightarrow> pricesFetchTriggeredForRound st \<noteq> Some (roundId b)))"

definition prices_inv :: "WatcherState \<Rightarrow> event list \<Rightarrow> bool" where
  "prices_inv st hist =
     ((\<forall>r. pricesFetchTriggeredForRound st = Some r \<longrightarrow> pricesFetchCount hist r = 1)
      \<and> (case lastBoard st of
            None \<Rightarrow> \<forall>r. pricesFetchCount hist r = 0
          | Some p \<Rightarrow>
              \<forall>r. pricesFetchCount hist r \<le> 1
                \<and> (roundId p < r \<longrightarrow> pricesFetchCount hist r = 0)
                \<and> (r = roundId p \<and> pricesFetchTriggeredForRound st \<noteq> Some r \<longrightarrow>
                     pricesFetchCount hist r = 0)))"

section \<open>Sample worlds\<close>

definition emptyWorld :: world where
  "emptyWorld = \<lparr>db = \<lparr>rounds_tbl = Map.empty, tiles_tbl = Map.empty\<rparr>, calls = [], logs = []\<rparr>"

definition offlineEnv :: env where
  "offlineEnv = \<lparr>startTime = 1000, roundStateFetchLatency = 40, priceFetchLatency = 30, evLatency = 1,
     chain = (\<lambda>rid. Inl (Error ''Round account not found'')),
     priceFetch = Inr unitPrice,
     miningCostFetch = Inr \<lparr>evPercent = Finite 10, fetchedAt_cost = 990\<rparr>,
     io_fault = None, delete_fault = (\<lambda>n. False)\<rparr>"

definition ctx5 :: PreFinContext where
  "ctx5 = \<lparr>board = b5, remainingSlots_ctx = 2, currentSlot = 98\<rparr>"

text \<open>Two stores that hold the same rows for every round but one.\<close>

definition agree_outside :: "int \<Rightarrow> database \<Rightarrow> database \<Rightarrow> bool" where
  "agree_outside key d d' =
     ((\<forall>k. k \<noteq> key \<longrightarrow> rounds_tbl d' k = rounds_tbl d k)
      \<and> (\<forall>k i. k \<noteq> key \<longrightarrow> tiles_tbl d' (k, i) = tiles_tbl d (k, i)))"

definition sampleCols :: round_cols where
  "sampleCols =
     \<lparr>ts_pre = Finite 1000, slot_pre = Finite 98, remaining_slots = Finite 2,
      board_start_slot = Finite 0, board_end_slot = Finite 100, price_ore_sol = Finite 1,
      price_sol_usd = Finite 1, price_ore_usd = Finite 1, price_fetched_at = Finite 990,
      total_deployed = Finite 0, total_miners = Finite 0, latency_fetch_ms = Finite 40,
      latency_ev_ms = Finite 1, mining_cost_pct = Finite 10\<rparr>"

definition sampleTile :: "int \<Rightarrow> tile_row" where
  "sampleTile i =
     \<lparr>deployed_col = Finite 0, miners_count = Finite 0, others_stake = Finite 0,
      ev_ratio = Finite (9009 / 250), max_profitable = Finite 37344398, rank_ev = num (i + 1),
      deployed_final = None, count_final = None\<rparr>"

definition pendingWorld :: world where
  "pendingWorld =
     \<lparr>db = \<lparr>rounds_tbl = [5 \<mapsto> \<lparr>pre_cols = sampleCols, post_cols = pending_cols\<rparr>],
             tiles_tbl = (\<lambda>k. if fst k = 5 \<and> 0 \<le> snd k \<and> snd k \<le> 24
                              then Some (sampleTile (snd k)) else None)\<rparr>,
      calls = [], logs = []\<rparr>"

definition settledRound :: "PublicKey \<Rightarrow> RoundAccount" where
  "settledRound miner = emptyRound\<lparr>slotHash := 26 # replicate 31 0, topMiner := miner\<rparr>"

definition liveEnv :: "PublicKey \<Rightarrow> env" where
  "liveEnv miner = offlineEnv\<lparr>chain := (\<lambda>rid. Inr (settledRound miner))\<rparr>"

definition ctx6 :: PostFinContext where
  "ctx6 = \<lparr>previousRoundId = 5, newBoard = b6\<rparr>"

text \<open>An environment where the chain has no account for the round and every DELETE raises.\<close>

definition faultyEnv :: env where
  "faultyEnv = offlineEnv\<lparr>delete_fault := (\<lambda>n. True)\<rparr>"

section \<open>Properties\<close>

subsection \<open>Number conversion\<close>

lemma bit_length_le: "n < 2 ^ k \<Longrightarrow> bit_length n \<le> k"
proof (induction k arbitrary: n)
  case 0
  then show ?case by (simp add: bit_length.simps)
next
  case (Suc k)
  show ?case
  proof (cases "n = 0")
    case True
    then show ?thesis by (simp add: bit_length.simps)
  next
    case False
    from Suc.prems have "n div 2 < 2 ^ k" by simp
    then have "bit_length (n div 2) \<le> k" by (rule Suc.IH)
    with False show ?thesis by (subst bit_length.simps) simp
  qed
qed

lemma bit_length_pos: "0 < n \<Longrightarrow> 2 ^ (bit_length n - 1) \<le> n"
proof (induction n rule: bit_length.induct)
  case (1 n)
  show ?case
  proof (cases "n div 2 = 0")
    case True
    with 1 have "n = 1" by (simp add: div_eq_0_iff)
    then show ?thesis by (simp add: bit_length.simps)
  next
    case False
    with 1 have ih: "2 ^ (bit_length (n div 2) - 1) \<le> n div 2" by simp
    from False have pos: "0 < bit_length (n div 2)"
      by (subst bit_length.simps) simp
    have "bit_length n = Suc (bit_length (n div 2))"
      using 1 by (subst bit_length.simps) simp
    then have "(2::nat) ^ (bit_length n - 1) = 2 * 2 ^ (bit_length (n div 2) - 1)"
      using pos by (cases "bit_length (n div 2)") simp_all
    also have "\<dots> \<le> 2 * (n div 2)" using ih by simp
    also have "\<dots> \<le> n" by simp
    finally show ?thesis .
  qed
qed

lemma nat_to_double_exact: "n < 2 ^ 53 \<Longrightarrow> nat_to_double n = n"
  by (simp add: nat_to_double_def bit_length_le)

lemma nat_to_double_pos: "0 < n \<Longrightarrow> 0 < nat_to_double n"
proof -
  assume pos: "0 < n"
  show ?thesis
  proof (cases "bit_length n \<le> 53")
    case True
    with pos show ?thesis by (simp add: nat_to_double_def)
  next
    case False
    define e where "e = bit_length n - 53"
    have "(2::nat) ^ e \<le> 2 ^ (bit_length n - 1)"
      unfolding e_def by (rule power_increasing) simp_all
    also have "\<dots> \<le> n" using pos by (rule bit_length_pos)
    finally have "1 \<le> n div 2 ^ e"
      by (simp add: less_eq_div_iff_mult_less_eq)
    then have "0 < round_half_even e n"
      by (simp add: round_half_even_def Let_def)
    with False show ?thesis by (simp add: nat_to_double_def e_def)
  qed
qed

lemma bigint_to_number_exact: "\<bar>x\<bar> < 2 ^ 53 \<Longrightarrow> bigint_to_number x = x"
proof (cases "x < 0")
  case True
  assume "\<bar>x\<bar> < 2 ^ 53"
  with True have "nat (- x) < 2 ^ 53" by (simp add: nat_less_iff)
  then have "nat_to_double (nat (- x)) = nat (- x)" by (rule nat_to_double_exact)
  with True show ?thesis unfolding bigint_to_number_def by simp
next
  case False
  assume "\<bar>x\<bar> < 2 ^ 53"
  with False have "nat x < 2 ^ 53" by (simp add: nat_less_iff)
  then have "nat_to_double (nat x) = nat x" by (rule nat_to_double_exact)
  with False show ?thesis unfolding bigint_to_number_def by simp
qed

lemma bigint_to_number_pos: "0 < x \<Longrightarrow> 0 < bigint_to_number x"
  using nat_to_double_pos [of "nat x"] by (simp add: bigint_to_number_def)

lemma bigint_to_number_neg: "x < 0 \<Longrightarrow> bigint_to_number x < 0"
  using nat_to_double_pos [of "nat (- x)"] by (simp add: bigint_to_number_def)

lemma bigint_to_number_zero: "bigint_to_number 0 = 0"
  by (simp add: bigint_to_number_exact)

lemmas number_eval =
  bigint_to_number_def nat_to_double_def round_half_even_def bit_length.simps Let_def

subsection \<open>The winning tile\<close>

lemma le_value_8:
  "le_value buf k 8 =
     byte_at buf k + byte_at buf (k + 1) * 2 ^ 8
       + byte_at buf (k + 2) * 2 ^ 16 + byte_at buf (k + 3) * 2 ^ 24
       + push_bit 32 (byte_at buf (k + 4) + byte_at buf (k + 5) * 2 ^ 8
                      + byte_at buf (k + 6) * 2 ^ 16 + byte_at buf (k + 7) * 2 ^ 24)"
  by (simp add: le_value_def byte_at_def push_bit_eq_mult eval_nat_numeral lessThan_Suc
      algebra_simps)

lemma readBigUInt64LE_le_value:
  "k + 8 \<le> length buf \<Longrightarrow> readBigUInt64LE buf k = Inr (le_value buf k 8)"
  unfolding le_value_8 by (simp add: readBigUInt64LE_def Let_def)

lemma le_value_nonneg: "0 \<le> le_value buf k n"
  by (simp add: le_value_def sum_nonneg)

lemma computeRng_32:
  "length seed = 32 \<Longrightarrow>
   computeRng seed =
     Inr (le_value seed 0 8 XOR le_value seed 8 8 XOR le_value seed 16 8 XOR le_value seed 24 8)"
  by (simp add: computeRng_def readBigUInt64LE_le_value)

lemma bigint_rem_nonneg: "0 \<le> a \<Longrightarrow> 0 < b \<Longrightarrow> bigint_rem a b = a mod b"
  by (cases "a = 0") (simp_all add: bigint_rem_def)

lemma computeWinningTile_value:
  assumes "length seed = 32"
  shows "computeWinningTile seed = Inr (spec_winning_tile seed)"
proof -
  let ?x = "le_value seed 0 8 XOR le_value seed 8 8 XOR le_value seed 16 8 XOR le_value seed 24 8"
  have nn: "0 \<le> ?x" by (simp add: le_value_nonneg)
  have r: "bigint_rem ?x 25 = ?x mod 25" using nn by (rule bigint_rem_nonneg) simp
  have lo: "0 \<le> ?x mod 25" by simp
  have hi: "?x mod 25 < 25" by simp
  have "\<bar>?x mod 25\<bar> < 2 ^ 53" using lo hi by simp
  then have "bigint_to_number (?x mod 25) = ?x mod 25" by (rule bigint_to_number_exact)
  with r assms show ?thesis
    by (simp add: computeWinningTile_def computeRng_32 spec_winning_tile_def)
qed

lemma spec_winning_tile_range: "0 \<le> spec_winning_tile seed \<and> spec_winning_tile seed \<le> 24"
  by (simp add: spec_winning_tile_def)

text \<open>
  C3. For every 32-byte seed, \<open>computeWinningTile\<close> returns (it does not throw) the XOR
  of the four little-endian 8-byte words at offsets 0, 8, 16 and 24, modulo 25, an
  integer between 0 and 24. The function is a function of the seed alone, so two runs on
  the same seed return the same value.
\<close>

theorem computeWinningTile_spec:
  assumes "length seed = 32"
  shows "computeWinningTile seed = Inr (spec_winning_tile seed)
       \<and> 0 \<le> spec_winning_tile seed \<and> spec_winning_tile seed \<le> 24"
  using computeWinningTile_value [OF assms] spec_winning_tile_range [of seed] by simp

theorem computeWinningTile_spec_witness:
  "length (26 # replicate 31 (0::byte)) = 32
   \<and> computeWinningTile (26 # replicate 31 0) = Inr (spec_winning_tile (26 # replicate 31 0))
   \<and> 0 \<le> spec_winning_tile (26 # replicate 31 0)
   \<and> spec_winning_tile (26 # replicate 31 0) \<le> 24"
  using computeWinningTile_spec [of "26 # replicate 31 0"] by simp

subsection \<open>EV ratio\<close>

lemma for_each_map:
  "(\<And>x. x \<in> set xs \<Longrightarrow> f x = Inr (g x)) \<Longrightarrow> for_each f xs = Inr (map g xs)"
  by (induction xs) simp_all

lemma foldl_plus: "foldl (\<lambda>acc d. acc + d) a xs = a + sum_list xs" for a :: int
  by (induction xs arbitrary: a) simp_all

lemma bigint_to_number_nonneg: "0 \<le> x \<Longrightarrow> 0 \<le> bigint_to_number x"
  using bigint_to_number_pos [of x] bigint_to_number_zero by (cases "x = 0") simp_all

lemma minStake: "Math_max (Finite (1 / 1000)) Number_EPSILON = Finite (1 / 1000)"
  by (simp add: Number_EPSILON_def)

lemma computeEvRatio_finite:
  "computeEvRatio (Finite others) (Finite pot) (Finite expo) (Finite stake) (Finite ore) =
     (if others + stake \<le> 0 then PosInfinity
      else Finite (1 / 25 * (9 / 10 * (pot + expo + stake) + ore) / (others + stake)))"
  by (simp add: computeEvRatio_def PROBABILITY_OF_WIN_def SOL_PAYOUT_FEE_FACTOR_def Let_def)

lemma lamportsToSol_Some:
  "lamportsToSol (Some d) = Finite (real_of_int (bigint_to_number d) / 1000000000)"
  by (simp add: lamportsToSol_def Number_bigint_def LAMPORTS_PER_SOL_def)

lemma Math_max_finite: "Math_max (Finite a) (Finite b) = Finite (max a b)"
  by (simp add: max_def)

lemma netOre_finite:
  "oreSol pq = Finite p \<Longrightarrow>
   computeNetOreValueSol rnd pq = Finite (netOre p (real_of_int (bigint_to_number (motherlode rnd))))"
  unfolding computeNetOreValueSol_def Number_bigint_def ORE_DECIMALS_def netOre_def
        SOL_PAYOUT_FEE_FACTOR_def MOTHERLODE_TRIGGER_PROBABILITY_def Let_def
  by (simp only: num_mul.simps num_div.simps num_add.simps Math_max_finite) simp


lemma solveMax_finite:
  "solveMaxProfitableStake (Finite others) (Finite pot) (Finite expo) (Finite ore) = Finite (maxStake others pot expo ore)"
  unfolding solveMaxProfitableStake_def PROBABILITY_OF_WIN_def SOL_PAYOUT_FEE_FACTOR_def
      EV_DENOMINATOR_def num_sub_def Let_def maxStake_def
  by (simp only: num_mul.simps num_div.simps num_add.simps num_neg.simps num_le.simps) simp

lemma BigInt_floor: "BigInt (Math_floor (num_mul (Finite m) (Finite c))) = Inr \<lfloor>m * c\<rfloor>"
  by simp

lemma tileEv_finite:
  assumes "i < length (deployed rnd)" "0 \<le> deployed rnd ! i"
  shows "tileEv rnd (Finite pot) (Finite ore) i =
     Inr \<lparr>tileIndex = i, tileDeployed = Some (deployed rnd ! i), minersCount = index (counts rnd) i,
          othersStake = Some (deployed rnd ! i),
          evRatio = Finite (1 / 25 * (9 / 10 * (pot + 0 + 1 / 1000) + ore)
                      / (real_of_int (bigint_to_number (deployed rnd ! i)) / 1000000000 + 1 / 1000)),
          maxProfitable = \<lfloor>maxStake (real_of_int (bigint_to_number (deployed rnd ! i)) / 1000000000) pot 0 ore * 1000000000\<rfloor>\<rparr>"
proof -
  have nn: "0 \<le> real_of_int (bigint_to_number (deployed rnd ! i))"
    using assms(2) by (simp add: bigint_to_number_nonneg)
  then have d: "\<not> real_of_int (bigint_to_number (deployed rnd ! i)) / 1000000000 + 1 / 1000 \<le> 0"
    by (simp add: add_nonneg_pos not_le)
  show ?thesis
    unfolding tileEv_def Let_def
    using assms(1) d
    by (simp only: index_def if_True lamportsToSol_Some minStake computeEvRatio_finite solveMax_finite BigInt_floor if_False sum.case)
qed

lemma calculateAllTileEvs_finite:
  assumes len: "length (deployed rnd) = 25"
    and nonneg: "list_all (\<lambda>d. 0 \<le> d) (deployed rnd)"
    and p: "oreSol pq = Finite p"
  shows "calculateAllTileEvs rnd pq =
           Inr (map (tileEvFinite rnd
                  (real_of_int (bigint_to_number (computePotFromOthers rnd)) / 1000000000)
                  (netOre p (real_of_int (bigint_to_number (motherlode rnd))))) [0..<25])"
proof -
  have each: "tileEv rnd (Finite pot) (Finite ore) i = Inr (tileEvFinite rnd pot ore i)"
    if "i \<in> set [0..<25]" for i pot ore
  proof -
    from that len have i: "i < length (deployed rnd)" by simp
    with nonneg have "0 \<le> deployed rnd ! i" by (simp add: list_all_length)
    with i show ?thesis unfolding tileEvFinite_def by (rule tileEv_finite)
  qed
  show ?thesis
    unfolding calculateAllTileEvs_def Let_def lamportsToSol_Some netOre_finite [OF p]
    by (rule for_each_map) (rule each)
qed




lemma bigint_zero_real: "real_of_int (bigint_to_number 0) = 0"
  by (simp add: bigint_to_number_zero)


subsection \<open>Ranking\<close>

lemma Number_bigint_sorts_after: "sorts_after (Number_bigint d) \<longleftrightarrow> 0 < d"
proof (cases "0 < d")
  case True
  then show ?thesis using bigint_to_number_pos [of d] by (simp add: sorts_after_def Number_bigint_def)
next
  case False
  then have "d = 0 \<or> d < 0" by auto
  then show ?thesis
    using bigint_to_number_neg [of d] bigint_to_number_zero by (auto simp add: sorts_after_def Number_bigint_def)
qed

lemma sorts_after_simps:
  "sorts_after (Finite r) = (0 < r)" "sorts_after PosInfinity = True"
  "sorts_after NegInfinity = False" "sorts_after NaN = False"
  by (simp_all add: sorts_after_def)

lemma compare_ranks_ahead:
  assumes "evRatio a \<noteq> NaN" "evRatio b \<noteq> NaN"
  shows "sorts_after (compareTiles a b) \<longleftrightarrow> ranks_ahead b a"
  using assms
  by (cases "evRatio a"; cases "evRatio b")
     (auto simp add: compareTiles_def ranks_ahead_def Number_bigint_sorts_after sorts_after_simps num_sub_def)

lemma ranks_ahead_irrefl: "\<not> ranks_ahead a a"
  by (cases "evRatio a") (auto simp add: ranks_ahead_def)

lemma ranks_ahead_asym: "ranks_ahead a b \<Longrightarrow> \<not> ranks_ahead b a"
  by (cases "evRatio a"; cases "evRatio b") (auto simp add: ranks_ahead_def)

lemma ranks_ahead_negtrans:
  assumes "evRatio a \<noteq> NaN" "evRatio b \<noteq> NaN" "evRatio c \<noteq> NaN"
    and "\<not> ranks_ahead b a" "\<not> ranks_ahead c b"
  shows "\<not> ranks_ahead c a"
  using assms
  by (cases "evRatio a"; cases "evRatio b"; cases "evRatio c") (auto simp add: ranks_ahead_def)

lemma set_insert_sorted: "set (insert_sorted cmp x ys) = insert x (set ys)"
  by (induction ys) auto

lemma mset_insert_sorted: "mset (insert_sorted cmp x ys) = add_mset x (mset ys)"
  by (induction ys) auto

lemma mset_array_sort: "mset (array_sort cmp xs) = mset xs"
  unfolding array_sort_def by (induction xs) (simp_all add: mset_insert_sorted)

lemma sorted_insert_sorted:
  assumes "evRatio x \<noteq> NaN" "\<forall>y\<in>set ys. evRatio y \<noteq> NaN"
    and "sorted_wrt (\<lambda>a b. \<not> ranks_ahead b a) ys"
  shows "sorted_wrt (\<lambda>a b. \<not> ranks_ahead b a) (insert_sorted compareTiles x ys)"
  using assms
proof (induction ys)
  case Nil
  then show ?case by simp
next
  case (Cons y ys)
  show ?case
  proof (cases "sorts_after (compareTiles x y)")
    case True
    then have ba: "ranks_ahead y x" using Cons.prems by (simp add: compare_ranks_ahead)
    then have "\<not> ranks_ahead x y" by (rule ranks_ahead_asym)
    moreover have "sorted_wrt (\<lambda>a b. \<not> ranks_ahead b a) (insert_sorted compareTiles x ys)"
      using Cons by simp
    ultimately show ?thesis using True Cons.prems by (auto simp add: set_insert_sorted)
  next
    case False
    then have xy: "\<not> ranks_ahead y x" using Cons.prems by (simp add: compare_ranks_ahead)
    have "\<not> ranks_ahead z x" if "z \<in> set ys" for z
    proof -
      from that Cons.prems have "\<not> ranks_ahead z y" "evRatio z \<noteq> NaN" "evRatio y \<noteq> NaN" by auto
      with xy Cons.prems(1) show ?thesis using ranks_ahead_negtrans [of x y z] by blast
    qed
    with False xy Cons.prems show ?thesis by auto
  qed
qed

lemma sorted_array_sort:
  "\<forall>y\<in>set xs. evRatio y \<noteq> NaN \<Longrightarrow>
   sorted_wrt (\<lambda>a b. \<not> ranks_ahead b a) (array_sort compareTiles xs)"
proof (induction xs)
  case Nil
  then show ?case by (simp add: array_sort_def)
next
  case (Cons x xs)
  have "set (array_sort compareTiles xs) = set xs"
    using mset_array_sort [of compareTiles xs] by (metis set_mset_mset)
  with Cons have "\<forall>y\<in>set (array_sort compareTiles xs). evRatio y \<noteq> NaN" by simp
  with Cons show ?case
    using sorted_insert_sorted [of x "array_sort compareTiles xs"] by (simp add: array_sort_def)
qed

lemma withRank_simps:
  "rankEv (withRank (i, t)) = Suc i" "evRatio (withRank (i, t)) = evRatio t"
  "maxProfitable (withRank (i, t)) = maxProfitable t"
  "TileEvResult.truncate (withRank (i, t)) = t"
  by (simp_all add: withRank_def TileEvResult.truncate_def)

lemma ranks_ahead_withRank:
  "ranks_ahead (withRank (i, a)) (withRank (j, b)) = ranks_ahead a b"
  by (simp add: ranks_ahead_def withRank_simps)

lemma rankTilesByEv_nth:
  "i < length tiles \<Longrightarrow>
   rankTilesByEv tiles ! i = withRank (i, array_sort compareTiles tiles ! i)"
proof -
  assume "i < length tiles"
  moreover have "length (array_sort compareTiles tiles) = length tiles"
    using mset_array_sort [of compareTiles tiles] by (metis size_mset)
  ultimately show ?thesis by (simp add: rankTilesByEv_def Let_def nth_enumerate_eq)
qed

lemma length_rankTilesByEv: "length (rankTilesByEv tiles) = length tiles"
  using mset_array_sort [of compareTiles tiles]
  by (simp add: rankTilesByEv_def Let_def) (metis size_mset)

lemma lamportsToSol_cases:
  "(\<exists>x. lamportsToSol d = Finite x) \<or> lamportsToSol d = NaN"
proof (cases d)
  case None
  then show ?thesis by (simp add: lamportsToSol_def LAMPORTS_PER_SOL_def)
next
  case (Some a)
  then show ?thesis by (simp only: lamportsToSol_Some) blast
qed

lemma tileEv_not_NaN:
  assumes "tileEv rnd (Finite pot) ore i = Inr t"
  shows "evRatio t \<noteq> NaN"
proof -
  consider x where "lamportsToSol (index (deployed rnd) i) = Finite x"
    | "lamportsToSol (index (deployed rnd) i) = NaN"
    using lamportsToSol_cases by blast
  then show ?thesis
  proof cases
    case 1
    then show ?thesis
      using assms
      by (cases ore)
       (auto simp add: tileEv_def Let_def minStake computeEvRatio_def solveMaxProfitableStake_def
          PROBABILITY_OF_WIN_def SOL_PAYOUT_FEE_FACTOR_def EV_DENOMINATOR_def num_sub_def
          infinity_of_sign_def split: if_splits sum.splits)
  next
    case 2
    then show ?thesis
      using assms
      by (cases ore)
       (auto simp add: tileEv_def Let_def minStake computeEvRatio_def solveMaxProfitableStake_def
          PROBABILITY_OF_WIN_def SOL_PAYOUT_FEE_FACTOR_def EV_DENOMINATOR_def num_sub_def
          infinity_of_sign_def split: if_splits sum.splits)
  qed
qed

lemma for_each_all:
  "for_each f xs = Inr ys \<Longrightarrow> (\<And>x y. f x = Inr y \<Longrightarrow> P y) \<Longrightarrow> list_all P ys"
  by (induction xs arbitrary: ys) (auto split: sum.splits)

lemma calculateAllTileEvs_not_NaN:
  "calculateAllTileEvs rnd pq = Inr tiles \<Longrightarrow> list_all (\<lambda>t. evRatio t \<noteq> NaN) tiles"
  unfolding calculateAllTileEvs_def Let_def lamportsToSol_Some
  by (erule for_each_all) (rule tileEv_not_NaN)

text \<open>
  C4. The ranks that \<open>rankTilesByEv\<close> assigns are 1, 2, ..., n in the order of its
  output (1 to 25 for 25 tiles): no duplicate, no gap; and the output, without the ranks,
  is a permutation of the input. The order is the stated one: whenever one tile is ahead
  of another (infinite ratio before finite, then larger ratio, then larger maximum
  profitable stake) it has the smaller rank. The order needs the ratios to be numbers,
  not NaN, which holds for every array that \<open>calculateAllTileEvs\<close> returns, whatever
  the deployed values.
\<close>

theorem rankTilesByEv_spec:
  "map rankEv (rankTilesByEv tiles) = [1..<Suc (length tiles)]
   \<and> mset (map TileEvResult.truncate (rankTilesByEv tiles)) = mset tiles
   \<and> (list_all (\<lambda>t. evRatio t \<noteq> NaN) tiles \<or> calculateAllTileEvs rnd pq = Inr tiles \<longrightarrow>
        (\<forall>a\<in>set (rankTilesByEv tiles). \<forall>b\<in>set (rankTilesByEv tiles).
           ranks_ahead a b \<longrightarrow> rankEv a < rankEv b))"
proof -
  let ?sorted = "array_sort compareTiles tiles"
  let ?res = "rankTilesByEv tiles"
  have len: "length ?sorted = length tiles"
    using mset_array_sort [of compareTiles tiles] by (metis size_mset)
  have ranks: "map rankEv ?res = [1..<Suc (length tiles)]"
  proof (rule nth_equalityI)
    show "length (map rankEv ?res) = length [1..<Suc (length tiles)]"
      by (simp add: length_rankTilesByEv del: upt_Suc)
    show "map rankEv ?res ! i = [1..<Suc (length tiles)] ! i" if "i < length (map rankEv ?res)" for i
      using that by (simp add: length_rankTilesByEv rankTilesByEv_nth withRank_simps del: upt_Suc)
  qed
  have "map TileEvResult.truncate ?res = ?sorted"
  proof (rule nth_equalityI)
    show "length (map TileEvResult.truncate ?res) = length ?sorted"
      by (simp add: length_rankTilesByEv len)
    show "map TileEvResult.truncate ?res ! i = ?sorted ! i"
      if "i < length (map TileEvResult.truncate ?res)" for i
      using that by (simp add: length_rankTilesByEv rankTilesByEv_nth withRank_simps)
  qed
  then have perm: "mset (map TileEvResult.truncate ?res) = mset tiles"
    by (simp add: mset_array_sort)
  have order: "rankEv a < rankEv b"
    if nan0: "list_all (\<lambda>t. evRatio t \<noteq> NaN) tiles \<or> calculateAllTileEvs rnd pq = Inr tiles"
      and a: "a \<in> set ?res" and b: "b \<in> set ?res" and ab: "ranks_ahead a b" for a b
  proof -
    from nan0 have nan: "list_all (\<lambda>t. evRatio t \<noteq> NaN) tiles"
      using calculateAllTileEvs_not_NaN [of rnd pq tiles] by blast
    from nan have "\<forall>y\<in>set tiles. evRatio y \<noteq> NaN" by (simp add: list_all_iff)
    then have sorted: "sorted_wrt (\<lambda>a b. \<not> ranks_ahead b a) ?sorted"
      by (rule sorted_array_sort)
    from a obtain i where i: "i < length tiles" "a = ?res ! i"
      by (auto simp add: in_set_conv_nth length_rankTilesByEv)
    from b obtain j where j: "j < length tiles" "b = ?res ! j"
      by (auto simp add: in_set_conv_nth length_rankTilesByEv)
    from i j ab have r: "ranks_ahead (?sorted ! i) (?sorted ! j)"
      by (simp add: rankTilesByEv_nth ranks_ahead_withRank)
    have "i < j"
    proof (rule ccontr)
      assume "\<not> i < j"
      then consider "j = i" | "j < i" by linarith
      then show False
      proof cases
        case 1
        with r show False by (simp add: ranks_ahead_irrefl)
      next
        case 2
        from i(1) len have "i < length ?sorted" by simp
        with sorted 2 have "\<not> ranks_ahead (?sorted ! i) (?sorted ! j)"
          by (rule sorted_wrt_nth_less)
        with r show False by simp
      qed
    qed
    with i j show ?thesis by (simp add: rankTilesByEv_nth withRank_simps)
  qed
  from ranks perm order show ?thesis by blast
qed

lemma rank_example: "map tileIndex (rankTilesByEv [tileA, tileB, tileC]) = [1, 2, 0]"
  by (simp add: rankTilesByEv_def array_sort_def compareTiles_def tileA_def tileB_def tileC_def sorts_after_simps withRank_def Let_def enumerate_eq_zip Number_bigint_def number_eval num_sub_def)

theorem rankTilesByEv_spec_witness:
  "list_all (\<lambda>t. evRatio t \<noteq> NaN) [tileA, tileB, tileC]
   \<and> map rankEv (rankTilesByEv [tileA, tileB, tileC]) = [1, 2, 3]
   \<and> mset (map TileEvResult.truncate (rankTilesByEv [tileA, tileB, tileC]))
       = mset [tileA, tileB, tileC]
   \<and> list_all (\<lambda>a. list_all (\<lambda>b. ranks_ahead a b \<longrightarrow> rankEv a < rankEv b)
         (rankTilesByEv [tileA, tileB, tileC])) (rankTilesByEv [tileA, tileB, tileC])
   \<and> calculateAllTileEvs emptyRound unitPrice = Inr zeroTiles
   \<and> map rankEv (rankTilesByEv zeroTiles) = [1..<26]
   \<and> list_all (\<lambda>a. list_all (\<lambda>b. ranks_ahead a b \<longrightarrow> rankEv a < rankEv b)
         (rankTilesByEv zeroTiles)) (rankTilesByEv zeroTiles)"
proof -
  have a: "length (deployed emptyRound) = 25" by (simp add: emptyRound_def)
  have b: "list_all (\<lambda>d. 0 \<le> d) (deployed emptyRound)"
    by (simp add: emptyRound_def list_all_iff)
  have c: "oreSol unitPrice = Finite 1" by (simp add: unitPrice_def)
  have pot: "computePotFromOthers emptyRound = 0"
    by (simp add: computePotFromOthers_def foldl_plus emptyRound_def sum_list_replicate)
  have ore: "netOre 1 (real_of_int (bigint_to_number (motherlode emptyRound))) = 9 / 10"
    by (simp add: netOre_def emptyRound_def bigint_zero_real)
  have potv: "real_of_int (bigint_to_number 0) / 1000000000 = 0"
    by (simp add: bigint_zero_real)
  have z: "calculateAllTileEvs emptyRound unitPrice = Inr zeroTiles"
    unfolding calculateAllTileEvs_finite [OF a b c] pot ore potv zeroTiles_def ..
  have l: "length zeroTiles = 25" by (simp add: zeroTiles_def)
  have n: "list_all (\<lambda>t. evRatio t \<noteq> NaN) [tileA, tileB, tileC]"
    by (simp add: tileA_def tileB_def tileC_def)
  have abc: "map rankEv (rankTilesByEv [tileA, tileB, tileC]) = [1, 2, 3]
     \<and> mset (map TileEvResult.truncate (rankTilesByEv [tileA, tileB, tileC]))
         = mset [tileA, tileB, tileC]
     \<and> list_all (\<lambda>a. list_all (\<lambda>b. ranks_ahead a b \<longrightarrow> rankEv a < rankEv b)
         (rankTilesByEv [tileA, tileB, tileC])) (rankTilesByEv [tileA, tileB, tileC])"
    using rankTilesByEv_spec [of "[tileA, tileB, tileC]" emptyRound unitPrice] n
    by (simp add: list_all_iff upt_rec)
  have zero: "map rankEv (rankTilesByEv zeroTiles) = [1..<26]
     \<and> list_all (\<lambda>a. list_all (\<lambda>b. ranks_ahead a b \<longrightarrow> rankEv a < rankEv b)
         (rankTilesByEv zeroTiles)) (rankTilesByEv zeroTiles)"
    using rankTilesByEv_spec [of zeroTiles emptyRound unitPrice] z l
    by (simp add: list_all_iff del: upt_Suc)
  from n abc z zero show ?thesis by simp
qed

subsection \<open>Board watcher\<close>

lemma remaining_active: "0 \<le> getRemainingSlots b s \<Longrightarrow> isRoundActive b"
  by (simp add: getRemainingSlots_def split: if_splits)

lemma evStep_simps:
  "lastBoard (fst (evStep cfg b rm s st)) = lastBoard st"
  "pricesFetchTriggeredForRound (fst (evStep cfg b rm s st)) = pricesFetchTriggeredForRound st"
  "evSnapshotTriggeredForRound (fst (evStep cfg b rm s st)) =
     (if 0 \<le> rm \<and> rm \<le> evSnapshotSlots cfg \<and> evSnapshotTriggeredForRound st \<noteq> Some (roundId b)
      then Some (roundId b) else evSnapshotTriggeredForRound st)"
  "evSnapshotCount (snd (evStep cfg b rm s st)) r =
     (if 0 \<le> rm \<and> rm \<le> evSnapshotSlots cfg \<and> evSnapshotTriggeredForRound st \<noteq> Some (roundId b)
         \<and> r = roundId b then 1 else 0)"
  "pricesFetchCount (snd (evStep cfg b rm s st)) r = 0"
  by (simp_all add: evStep_def evSnapshotCount_def pricesFetchCount_def)

lemma pricesStep_simps:
  "lastBoard (fst (pricesStep cfg b rm s st)) = lastBoard st"
  "evSnapshotTriggeredForRound (fst (pricesStep cfg b rm s st)) = evSnapshotTriggeredForRound st"
  "pricesFetchTriggeredForRound (fst (pricesStep cfg b rm s st)) =
     (if 0 \<le> rm \<and> rm \<le> preFinThresholdSlots cfg \<and> pricesFetchTriggeredForRound st \<noteq> Some (roundId b)
      then Some (roundId b) else pricesFetchTriggeredForRound st)"
  "pricesFetchCount (snd (pricesStep cfg b rm s st)) r =
     (if 0 \<le> rm \<and> rm \<le> preFinThresholdSlots cfg \<and> pricesFetchTriggeredForRound st \<noteq> Some (roundId b)
         \<and> r = roundId b then 1 else 0)"
  "evSnapshotCount (snd (pricesStep cfg b rm s st)) r = 0"
  by (simp_all add: pricesStep_def evSnapshotCount_def pricesFetchCount_def)

lemma postFinStep_simps:
  "lastBoard (fst (postFinStep b st p)) = lastBoard st"
  "evSnapshotTriggeredForRound (fst (postFinStep b st p)) =
     (if roundId p < roundId b then None else evSnapshotTriggeredForRound st)"
  "pricesFetchTriggeredForRound (fst (postFinStep b st p)) =
     (if roundId p < roundId b then None else pricesFetchTriggeredForRound st)"
  "evSnapshotCount (snd (postFinStep b st p)) r = 0"
  "pricesFetchCount (snd (postFinStep b st p)) r = 0"
  by (simp_all add: postFinStep_def evSnapshotCount_def pricesFetchCount_def)

lemma count_append:
  "evSnapshotCount (xs @ ys) r = evSnapshotCount xs r + evSnapshotCount ys r"
  "pricesFetchCount (xs @ ys) r = pricesFetchCount xs r + pricesFetchCount ys r"
  by (simp_all add: evSnapshotCount_def pricesFetchCount_def)

lemma count_update:
  "evSnapshotCount (OnBoardUpdate b # xs) r = evSnapshotCount xs r"
  "pricesFetchCount (OnBoardUpdate b # xs) r = pricesFetchCount xs r"
  "evSnapshotCount [] r = 0" "pricesFetchCount [] r = 0"
  by (simp_all add: evSnapshotCount_def pricesFetchCount_def)

lemmas step_simps = evStep_simps pricesStep_simps postFinStep_simps count_append count_update

lemma processBoard_last: "lastBoard (fst (processBoard cfg st (b, s))) = Some b"
  by (simp add: processBoard_def Let_def split_beta step_simps split: option.splits)

lemma processBoard_ev_flag:
  "evSnapshotTriggeredForRound (fst (processBoard cfg st (b, s))) =
     (if ev_fires cfg st b s then Some (roundId b)
      else (case lastBoard st of
              Some p \<Rightarrow> if roundId p < roundId b then None else evSnapshotTriggeredForRound st
            | None \<Rightarrow> evSnapshotTriggeredForRound st))"
  using remaining_active [of b s]
  by (auto simp add: processBoard_def Let_def split_beta step_simps ev_fires_def split: option.splits)

lemma processBoard_ev_count:
  "evSnapshotCount (snd (processBoard cfg st (b, s))) r =
     (if ev_fires cfg st b s \<and> r = roundId b then 1 else 0)"
  using remaining_active [of b s]
  by (auto simp add: processBoard_def Let_def split_beta step_simps ev_fires_def split: option.splits)

lemma ev_inv_le1: "ev_inv st hist \<Longrightarrow> evSnapshotCount hist r \<le> 1"
  by (auto simp add: ev_inv_def split: option.splits)

lemma ev_inv_flag: "ev_inv st hist \<Longrightarrow> evSnapshotTriggeredForRound st = Some r \<Longrightarrow> evSnapshotCount hist r = 1"
  by (simp add: ev_inv_def)

lemma ev_inv_step:
  assumes inv: "ev_inv st hist"
    and mono: "\<And>p. lastBoard st = Some p \<Longrightarrow> roundId p \<le> roundId b"
  shows "ev_inv (fst (processBoard cfg st (b, s))) (hist @ snd (processBoard cfg st (b, s)))"
proof (cases "lastBoard st")
  case None
  with inv have z: "\<And>r. evSnapshotCount hist r = 0" and f: "evSnapshotTriggeredForRound st = None"
    by (auto simp add: ev_inv_def)
  show ?thesis
    unfolding ev_inv_def processBoard_last processBoard_ev_flag count_append processBoard_ev_count
    using None z f by (simp add: ev_fires_def)
next
  case (Some p)
  with inv have a: "\<And>r. evSnapshotTriggeredForRound st = Some r \<Longrightarrow> evSnapshotCount hist r = 1"
    and le: "\<And>r. evSnapshotCount hist r \<le> 1"
    and gt: "\<And>r. roundId p < r \<Longrightarrow> evSnapshotCount hist r = 0"
    and eq: "evSnapshotTriggeredForRound st \<noteq> Some (roundId p) \<Longrightarrow> evSnapshotCount hist (roundId p) = 0"
    by (simp_all add: ev_inv_def)
  from mono Some have pb: "roundId p \<le> roundId b" by simp
  show ?thesis
  proof (cases "roundId p < roundId b")
    case True
    then have z: "evSnapshotCount hist (roundId b) = 0" by (rule gt)
    have g: "evSnapshotCount hist r = 0" if "roundId b < r" for r
      using that True gt [of r] by simp
    show ?thesis
      unfolding ev_inv_def processBoard_last processBoard_ev_flag count_append processBoard_ev_count
      using Some True z g le by (auto simp add: ev_fires_def)
  next
    case False
    with pb have e: "roundId b = roundId p" by simp
    show ?thesis
      unfolding ev_inv_def processBoard_last processBoard_ev_flag count_append processBoard_ev_count
      using Some False e a le gt eq by (auto simp add: ev_fires_def)
  qed
qed

lemma ev_inv_run:
  assumes "ev_inv st hist"
    and "sorted (map (\<lambda>i. roundId (fst i)) inputs)"
    and "\<And>p i. lastBoard st = Some p \<Longrightarrow> i \<in> set inputs \<Longrightarrow> roundId p \<le> roundId (fst i)"
  shows "ev_inv (fst (processBoards cfg st inputs)) (hist @ snd (processBoards cfg st inputs))"
  using assms
proof (induction inputs arbitrary: st hist)
  case Nil
  then show ?case by simp
next
  case (Cons input rest)
  obtain b s where bs: "input = (b, s)" by (cases input)
  let ?st1 = "fst (processBoard cfg st (b, s))"
  let ?ev1 = "snd (processBoard cfg st (b, s))"
  have m: "roundId p \<le> roundId b" if "lastBoard st = Some p" for p
    using Cons.prems(3) [OF that, of input] by (simp add: bs)
  have 1: "ev_inv ?st1 (hist @ ?ev1)"
    using Cons.prems(1) m by (rule ev_inv_step)
  have 2: "sorted (map (\<lambda>i. roundId (fst i)) rest)" using Cons.prems(2) by simp
  have 3: "roundId p \<le> roundId (fst i)" if "lastBoard ?st1 = Some p" "i \<in> set rest" for p i
    using that Cons.prems(2) bs by (auto simp add: processBoard_last)
  from Cons.IH [OF 1 2 3] show ?case
    by (simp add: bs split_beta)
qed

lemma ev_exactly_once_run:
  assumes "ev_inv st hist"
    and "sorted (map (\<lambda>i. roundId (fst i)) inputs)"
    and "\<And>p i. lastBoard st = Some p \<Longrightarrow> i \<in> set inputs \<Longrightarrow> roundId p \<le> roundId (fst i)"
    and "(b, s) \<in> set inputs"
    and "0 \<le> getRemainingSlots b s" "getRemainingSlots b s \<le> evSnapshotSlots cfg"
  shows "evSnapshotCount (hist @ snd (processBoards cfg st inputs)) (roundId b) = 1"
  using assms(1-4)
proof (induction inputs arbitrary: st hist)
  case Nil
  then show ?case by simp
next
  case (Cons input rest)
  obtain b' s' where bs: "input = (b', s')" by (cases input)
  let ?st1 = "fst (processBoard cfg st (b', s'))"
  let ?ev1 = "snd (processBoard cfg st (b', s'))"
  have m: "roundId p \<le> roundId b'" if "lastBoard st = Some p" for p
    using Cons.prems(3) [OF that, of input] by (simp add: bs)
  have 1: "ev_inv ?st1 (hist @ ?ev1)"
    using Cons.prems(1) m by (rule ev_inv_step)
  have 2: "sorted (map (\<lambda>i. roundId (fst i)) rest)" using Cons.prems(2) by simp
  have 3: "roundId p \<le> roundId (fst i)" if "lastBoard ?st1 = Some p" "i \<in> set rest" for p i
    using that Cons.prems(2) bs by (auto simp add: processBoard_last)
  have run: "processBoards cfg st (input # rest) =
        (fst (processBoards cfg ?st1 rest), ?ev1 @ snd (processBoards cfg ?st1 rest))"
    by (simp add: bs split_beta)
  show ?case
  proof (cases "(b, s) = (b', s')")
    case True
    have "evSnapshotTriggeredForRound ?st1 = Some (roundId b)"
      using True assms(5,6) Cons.prems(3) [of _ input] bs
      by (auto simp add: processBoard_ev_flag ev_fires_def split: option.splits)
    with 1 have one: "evSnapshotCount (hist @ ?ev1) (roundId b) = 1" by (rule ev_inv_flag)
    have "ev_inv (fst (processBoards cfg ?st1 rest)) ((hist @ ?ev1) @ snd (processBoards cfg ?st1 rest))"
      using 1 2 3 by (rule ev_inv_run)
    then have "evSnapshotCount ((hist @ ?ev1) @ snd (processBoards cfg ?st1 rest)) (roundId b) \<le> 1"
      by (rule ev_inv_le1)
    with one show ?thesis unfolding run by (simp add: count_append)
  next
    case False
    with Cons.prems(4) bs have "(b, s) \<in> set rest" by auto
    with Cons.IH [OF 1 2 3] show ?thesis unfolding run by simp
  qed
qed

lemma processBoard_prices_flag:
  "pricesFetchTriggeredForRound (fst (processBoard cfg st (b, s))) =
     (if prices_fires cfg st b s then Some (roundId b)
      else (case lastBoard st of
              Some p \<Rightarrow> if roundId p < roundId b then None else pricesFetchTriggeredForRound st
            | None \<Rightarrow> pricesFetchTriggeredForRound st))"
  using remaining_active [of b s]
  by (auto simp add: processBoard_def Let_def split_beta step_simps prices_fires_def split: option.splits)

lemma processBoard_prices_count:
  "pricesFetchCount (snd (processBoard cfg st (b, s))) r =
     (if prices_fires cfg st b s \<and> r = roundId b then 1 else 0)"
  using remaining_active [of b s]
  by (auto simp add: processBoard_def Let_def split_beta step_simps prices_fires_def split: option.splits)

lemma prices_inv_le1: "prices_inv st hist \<Longrightarrow> pricesFetchCount hist r \<le> 1"
  by (auto simp add: prices_inv_def split: option.splits)

lemma prices_inv_flag: "prices_inv st hist \<Longrightarrow> pricesFetchTriggeredForRound st = Some r \<Longrightarrow> pricesFetchCount hist r = 1"
  by (simp add: prices_inv_def)

lemma prices_inv_step:
  assumes inv: "prices_inv st hist"
    and mono: "\<And>p. lastBoard st = Some p \<Longrightarrow> roundId p \<le> roundId b"
  shows "prices_inv (fst (processBoard cfg st (b, s))) (hist @ snd (processBoard cfg st (b, s)))"
proof (cases "lastBoard st")
  case None
  with inv have z: "\<And>r. pricesFetchCount hist r = 0" and f: "pricesFetchTriggeredForRound st = None"
    by (auto simp add: prices_inv_def)
  show ?thesis
    unfolding prices_inv_def processBoard_last processBoard_prices_flag count_append processBoard_prices_count
    using None z f by (simp add: prices_fires_def)
next
  case (Some p)
  with inv have a: "\<And>r. pricesFetchTriggeredForRound st = Some r \<Longrightarrow> pricesFetchCount hist r = 1"
    and le: "\<And>r. pricesFetchCount hist r \<le> 1"
    and gt: "\<And>r. roundId p < r \<Longrightarrow> pricesFetchCount hist r = 0"
    and eq: "pricesFetchTriggeredForRound st \<noteq> Some (roundId p) \<Longrightarrow> pricesFetchCount hist (roundId p) = 0"
    by (simp_all add: prices_inv_def)
  from mono Some have pb: "roundId p \<le> roundId b" by simp
  show ?thesis
  proof (cases "roundId p < roundId b")
    case True
    then have z: "pricesFetchCount hist (roundId b) = 0" by (rule gt)
    have g: "pricesFetchCount hist r = 0" if "roundId b < r" for r
      using that True gt [of r] by simp
    show ?thesis
      unfolding prices_inv_def processBoard_last processBoard_prices_flag count_append processBoard_prices_count
      using Some True z g le by (auto simp add: prices_fires_def)
  next
    case False
    with pb have e: "roundId b = roundId p" by simp
    show ?thesis
      unfolding prices_inv_def processBoard_last processBoard_prices_flag count_append processBoard_prices_count
      using Some False e a le gt eq by (auto simp add: prices_fires_def)
  qed
qed

lemma prices_inv_run:
  assumes "prices_inv st hist"
    and "sorted (map (\<lambda>i. roundId (fst i)) inputs)"
    and "\<And>p i. lastBoard st = Some p \<Longrightarrow> i \<in> set inputs \<Longrightarrow> roundId p \<le> roundId (fst i)"
  shows "prices_inv (fst (processBoards cfg st inputs)) (hist @ snd (processBoards cfg st inputs))"
  using assms
proof (induction inputs arbitrary: st hist)
  case Nil
  then show ?case by simp
next
  case (Cons input rest)
  obtain b s where bs: "input = (b, s)" by (cases input)
  let ?st1 = "fst (processBoard cfg st (b, s))"
  let ?ev1 = "snd (processBoard cfg st (b, s))"
  have m: "roundId p \<le> roundId b" if "lastBoard st = Some p" for p
    using Cons.prems(3) [OF that, of input] by (simp add: bs)
  have 1: "prices_inv ?st1 (hist @ ?ev1)"
    using Cons.prems(1) m by (rule prices_inv_step)
  have 2: "sorted (map (\<lambda>i. roundId (fst i)) rest)" using Cons.prems(2) by simp
  have 3: "roundId p \<le> roundId (fst i)" if "lastBoard ?st1 = Some p" "i \<in> set rest" for p i
    using that Cons.prems(2) bs by (auto simp add: processBoard_last)
  from Cons.IH [OF 1 2 3] show ?case
    by (simp add: bs split_beta)
qed

lemma prices_exactly_once_run:
  assumes "prices_inv st hist"
    and "sorted (map (\<lambda>i. roundId (fst i)) inputs)"
    and "\<And>p i. lastBoard st = Some p \<Longrightarrow> i \<in> set inputs \<Longrightarrow> roundId p \<le> roundId (fst i)"
    and "(b, s) \<in> set inputs"
    and "0 \<le> getRemainingSlots b s" "getRemainingSlots b s \<le> preFinThresholdSlots cfg"
  shows "pricesFetchCount (hist @ snd (processBoards cfg st inputs)) (roundId b) = 1"
  using assms(1-4)
proof (induction inputs arbitrary: st hist)
  case Nil
  then show ?case by simp
next
  case (Cons input rest)
  obtain b' s' where bs: "input = (b', s')" by (cases input)
  let ?st1 = "fst (processBoard cfg st (b', s'))"
  let ?ev1 = "snd (processBoard cfg st (b', s'))"
  have m: "roundId p \<le> roundId b'" if "lastBoard st = Some p" for p
    using Cons.prems(3) [OF that, of input] by (simp add: bs)
  have 1: "prices_inv ?st1 (hist @ ?ev1)"
    using Cons.prems(1) m by (rule prices_inv_step)
  have 2: "sorted (map (\<lambda>i. roundId (fst i)) rest)" using Cons.prems(2) by simp
  have 3: "roundId p \<le> roundId (fst i)" if "lastBoard ?st1 = Some p" "i \<in> set rest" for p i
    using that Cons.prems(2) bs by (auto simp add: processBoard_last)
  have run: "processBoards cfg st (input # rest) =
        (fst (processBoards cfg ?st1 rest), ?ev1 @ snd (processBoards cfg ?st1 rest))"
    by (simp add: bs split_beta)
  show ?case
  proof (cases "(b, s) = (b', s')")
    case True
    have "pricesFetchTriggeredForRound ?st1 = Some (roundId b)"
      using True assms(5,6) Cons.prems(3) [of _ input] bs
      by (auto simp add: processBoard_prices_flag prices_fires_def split: option.splits)
    with 1 have one: "pricesFetchCount (hist @ ?ev1) (roundId b) = 1" by (rule prices_inv_flag)
    have "prices_inv (fst (processBoards cfg ?st1 rest)) ((hist @ ?ev1) @ snd (processBoards cfg ?st1 rest))"
      using 1 2 3 by (rule prices_inv_run)
    then have "pricesFetchCount ((hist @ ?ev1) @ snd (processBoards cfg ?st1 rest)) (roundId b) \<le> 1"
      by (rule prices_inv_le1)
    with one show ?thesis unfolding run by (simp add: count_append)
  next
    case False
    with Cons.prems(4) bs have "(b, s) \<in> set rest" by auto
    with Cons.IH [OF 1 2 3] show ?thesis unfolding run by simp
  qed
qed

text \<open>
  C5, as the code has it. The fired-flag is a single slot per trigger, cleared when the
  round id increases. Over any sequence of boards whose round ids never decrease (the
  ledger's round id is monotonic; duplicates and repeated deliveries are allowed), each
  of the two triggers fires at most once per round id, and for every board delivered with
  \<open>remainingSlots\<close> in \<open>[0, evSnapshotSlots]\<close> the EV snapshot trigger fires exactly
  once for that board's round id.
\<close>

theorem watcher_triggers_once:
  assumes "sorted (map (\<lambda>i. roundId (fst i)) inputs)"
  shows "evSnapshotCount (snd (processBoards cfg initialWatcher inputs)) r \<le> 1
       \<and> pricesFetchCount (snd (processBoards cfg initialWatcher inputs)) r \<le> 1
       \<and> (\<forall>(b, s)\<in>set inputs.
             0 \<le> getRemainingSlots b s \<and> getRemainingSlots b s \<le> evSnapshotSlots cfg \<longrightarrow>
             evSnapshotCount (snd (processBoards cfg initialWatcher inputs)) (roundId b) = 1)"
proof -
  have e0: "ev_inv initialWatcher []"
    by (simp add: ev_inv_def initialWatcher_def evSnapshotCount_def)
  have p0: "prices_inv initialWatcher []"
    by (simp add: prices_inv_def initialWatcher_def pricesFetchCount_def)
  have l0: "roundId p \<le> roundId (fst i)" if "lastBoard initialWatcher = Some p" for p and i :: "BoardAccount \<times> bigint"
    using that by (simp add: initialWatcher_def)
  have "ev_inv (fst (processBoards cfg initialWatcher inputs)) ([] @ snd (processBoards cfg initialWatcher inputs))"
    using e0 assms l0 by (rule ev_inv_run)
  then have a: "evSnapshotCount (snd (processBoards cfg initialWatcher inputs)) r \<le> 1"
    using ev_inv_le1 by simp
  have "prices_inv (fst (processBoards cfg initialWatcher inputs)) ([] @ snd (processBoards cfg initialWatcher inputs))"
    using p0 assms l0 by (rule prices_inv_run)
  then have b: "pricesFetchCount (snd (processBoards cfg initialWatcher inputs)) r \<le> 1"
    using prices_inv_le1 by simp
  have c: "evSnapshotCount (snd (processBoards cfg initialWatcher inputs)) (roundId b) = 1"
    if "(b, s) \<in> set inputs" "0 \<le> getRemainingSlots b s" "getRemainingSlots b s \<le> evSnapshotSlots cfg" for b s
    using ev_exactly_once_run [OF e0 assms l0 that] by simp
  from a b c show ?thesis by auto
qed

theorem watcher_triggers_once_witness:
  "sorted (map (\<lambda>i. roundId (fst i)) [(b5, 98), (b5, 99), (b5, 98), (b6, 198)])
   \<and> 0 \<le> getRemainingSlots b5 98 \<and> getRemainingSlots b5 98 \<le> evSnapshotSlots cfg0
   \<and> evSnapshotCount
         (snd (processBoards cfg0 initialWatcher [(b5, 98), (b5, 99), (b5, 98), (b6, 198)])) 5 = 1
   \<and> evSnapshotCount
         (snd (processBoards cfg0 initialWatcher [(b5, 98), (b5, 99), (b5, 98), (b6, 198)])) 6 = 1
   \<and> pricesFetchCount
         (snd (processBoards cfg0 initialWatcher [(b5, 98), (b5, 99), (b5, 98), (b6, 198)])) 5 \<le> 1"
  using watcher_triggers_once [of "[(b5, 98), (b5, 99), (b5, 98), (b6, 198)]" cfg0 5]
  by (simp add: b5_def b6_def cfg0_def getRemainingSlots_def isRoundActive_def U64_MAX_def
      bigint_to_number_exact)

lemmas watcher_eval = processBoard_def postFinStep_def pricesStep_def evStep_def
  isRoundActive_def getRemainingSlots_def U64_MAX_def initialWatcher_def Let_def
  evSnapshotCount_def pricesFetchCount_def

lemma rem1: "bigint_to_number 2 = 2" by (simp add: bigint_to_number_exact)

text \<open>
  C5 as stated fails when an older board arrives after a newer one: round 5, then round
  6, then round 5 again, each inside both windows, fires both triggers twice for round 5.
\<close>

theorem watcher_counterexample:
  "evSnapshotCount (snd (processBoards cfg0 initialWatcher [(b5, 98), (b6, 198), (b5, 98)])) 5 = 2
   \<and> pricesFetchCount (snd (processBoards cfg0 initialWatcher [(b5, 98), (b6, 198), (b5, 98)])) 5 = 2"
  by (simp add: watcher_eval b5_def b6_def cfg0_def rem1)

subsection \<open>Remaining slots\<close>

text \<open>
  C10, as the code has it. For a board whose end slot is the u64 sentinel the result is
  -1, which lies outside both trigger windows, and \<open>processBoard\<close> fires neither phase
  trigger for such a board. Otherwise the result is never negative: it is 0 when the end
  slot has passed, and the double nearest to \<open>endSlot - currentSlot\<close> when it has not,
  which is \<open>max 0 (endSlot - currentSlot)\<close> itself whenever that difference is below
  \<open>2 ^ 53\<close>. So a board observed after its end slot has passed still lies in the
  \<open>[0, threshold]\<close> window of every non-negative threshold, and \<open>processBoard\<close> fires
  each phase trigger for it unless the trigger's flag already names its round.
\<close>

theorem getRemainingSlots_spec:
  "(endSlot brd = U64_MAX \<longrightarrow>
        getRemainingSlots brd cur = - 1
        \<and> pricesStep cfg brd (getRemainingSlots brd cur) cur st = (st, [])
        \<and> evStep cfg brd (getRemainingSlots brd cur) cur st = (st, [])
        \<and> pricesFetchCount (snd (processBoard cfg st (brd, cur))) r = 0
        \<and> evSnapshotCount (snd (processBoard cfg st (brd, cur))) r = 0)
   \<and> (endSlot brd \<noteq> U64_MAX \<longrightarrow>
        0 \<le> getRemainingSlots brd cur
        \<and> getRemainingSlots brd cur
            = (if 0 < endSlot brd - cur
               then bigint_to_number (endSlot brd - cur) else 0)
        \<and> (endSlot brd - cur < 2 ^ 53 \<longrightarrow>
             getRemainingSlots brd cur = max 0 (endSlot brd - cur))
        \<and> (endSlot brd \<le> cur \<longrightarrow>
             getRemainingSlots brd cur = 0
             \<and> (0 \<le> preFinThresholdSlots cfg
                  \<and> pricesFetchTriggeredForRound st \<noteq> Some (roundId brd) \<longrightarrow>
                  pricesFetchCount (snd (processBoard cfg st (brd, cur))) (roundId brd) = 1)
             \<and> (0 \<le> evSnapshotSlots cfg
                  \<and> evSnapshotTriggeredForRound st \<noteq> Some (roundId brd) \<longrightarrow>
                  evSnapshotCount (snd (processBoard cfg st (brd, cur))) (roundId brd) = 1)))"
proof -
  have pos: "0 < endSlot brd - cur \<Longrightarrow>
             0 \<le> bigint_to_number (endSlot brd - cur)"
    using bigint_to_number_pos [of "endSlot brd - cur"] by simp
  have ex: "0 < endSlot brd - cur \<Longrightarrow> endSlot brd - cur < 2 ^ 53 \<Longrightarrow>
            bigint_to_number (endSlot brd - cur) = endSlot brd - cur"
    by (rule bigint_to_number_exact) simp
  have val: "(endSlot brd = U64_MAX \<longrightarrow> getRemainingSlots brd cur = - 1)
   \<and> (endSlot brd \<noteq> U64_MAX \<longrightarrow>
        0 \<le> getRemainingSlots brd cur
        \<and> getRemainingSlots brd cur
            = (if 0 < endSlot brd - cur
               then bigint_to_number (endSlot brd - cur) else 0)
        \<and> (endSlot brd - cur < 2 ^ 53 \<longrightarrow>
             getRemainingSlots brd cur = max 0 (endSlot brd - cur))
        \<and> (endSlot brd \<le> cur \<longrightarrow> getRemainingSlots brd cur = 0))"
    using pos ex by (auto simp add: getRemainingSlots_def isRoundActive_def Let_def)
  have sentinel: "pricesStep cfg brd (getRemainingSlots brd cur) cur st = (st, [])
        \<and> evStep cfg brd (getRemainingSlots brd cur) cur st = (st, [])
        \<and> pricesFetchCount (snd (processBoard cfg st (brd, cur))) r = 0
        \<and> evSnapshotCount (snd (processBoard cfg st (brd, cur))) r = 0"
    if "endSlot brd = U64_MAX"
  proof -
    from that val have "getRemainingSlots brd cur = - 1" by simp
    then show ?thesis
      by (simp add: pricesStep_def evStep_def processBoard_prices_count processBoard_ev_count
          prices_fires_def ev_fires_def)
  qed
  have expired: "(0 \<le> preFinThresholdSlots cfg
                  \<and> pricesFetchTriggeredForRound st \<noteq> Some (roundId brd) \<longrightarrow>
                  pricesFetchCount (snd (processBoard cfg st (brd, cur))) (roundId brd) = 1)
             \<and> (0 \<le> evSnapshotSlots cfg
                  \<and> evSnapshotTriggeredForRound st \<noteq> Some (roundId brd) \<longrightarrow>
                  evSnapshotCount (snd (processBoard cfg st (brd, cur))) (roundId brd) = 1)"
    if "endSlot brd \<noteq> U64_MAX" "endSlot brd \<le> cur"
  proof -
    from that val have "getRemainingSlots brd cur = 0" by simp
    then show ?thesis
      by (simp add: processBoard_prices_count processBoard_ev_count
          prices_fires_def ev_fires_def split: option.splits)
  qed
  from val sentinel expired show ?thesis by blast
qed

theorem getRemainingSlots_spec_witness:
  "getRemainingSlots \<lparr>roundId = 7, startSlot = 50, endSlot = U64_MAX\<rparr> 60 = - 1
   \<and> pricesFetchCount (snd (processBoard cfg0 initialWatcher
          (\<lparr>roundId = 7, startSlot = 50, endSlot = U64_MAX\<rparr>, 60))) 7 = 0
   \<and> evSnapshotCount (snd (processBoard cfg0 initialWatcher
          (\<lparr>roundId = 7, startSlot = 50, endSlot = U64_MAX\<rparr>, 60))) 7 = 0
   \<and> 0 \<le> getRemainingSlots \<lparr>roundId = 7, startSlot = 50, endSlot = 200\<rparr> 195
   \<and> getRemainingSlots \<lparr>roundId = 7, startSlot = 50, endSlot = 200\<rparr> 195 = 5
   \<and> getRemainingSlots \<lparr>roundId = 7, startSlot = 50, endSlot = 200\<rparr> 260 = 0
   \<and> pricesFetchCount (snd (processBoard cfg0 initialWatcher
          (\<lparr>roundId = 7, startSlot = 50, endSlot = 200\<rparr>, 260))) 7 = 1
   \<and> evSnapshotCount (snd (processBoard cfg0 initialWatcher
          (\<lparr>roundId = 7, startSlot = 50, endSlot = 200\<rparr>, 260))) 7 = 1"
  using getRemainingSlots_spec [of "\<lparr>roundId = 7, startSlot = 50, endSlot = U64_MAX\<rparr>" 60
          cfg0 initialWatcher 7]
        getRemainingSlots_spec [of "\<lparr>roundId = 7, startSlot = 50, endSlot = 200\<rparr>" 195
          cfg0 initialWatcher 7]
        getRemainingSlots_spec [of "\<lparr>roundId = 7, startSlot = 50, endSlot = 200\<rparr>" 260
          cfg0 initialWatcher 7]
  by (simp add: U64_MAX_def cfg0_def initialWatcher_def)

text \<open>
  C10 as stated fails above \<open>2 ^ 53\<close>: the end slot \<open>2 ^ 53 + 1\<close> is not the sentinel,
  and at current slot 0 the function returns \<open>2 ^ 53\<close>, not the difference.
\<close>

theorem getRemainingSlots_counterexample:
  "endSlot \<lparr>roundId = 7, startSlot = 0, endSlot = 9007199254740993\<rparr> \<noteq> U64_MAX
   \<and> getRemainingSlots \<lparr>roundId = 7, startSlot = 0, endSlot = 9007199254740993\<rparr> 0
       = 9007199254740992
   \<and> getRemainingSlots \<lparr>roundId = 7, startSlot = 0, endSlot = 9007199254740993\<rparr> 0
       \<noteq> max 0 (endSlot \<lparr>roundId = 7, startSlot = 0, endSlot = 9007199254740993\<rparr> - 0)"
  by (simp add: getRemainingSlots_def isRoundActive_def U64_MAX_def number_eval)

subsection \<open>Effects of the collaborators\<close>

lemma logger_simps:
  "db (logger l m x w) = db w" "calls (logger l m x w) = calls w"
  "notifications (logger l m x w) = notifications w"
  by (simp_all add: logger_def notifications_def)

lemma called_simps:
  "db (called c w) = db w" "calls (called c w) = calls w @ [c]"
  "notifications (called c w) = notifications w @ failureNotification c"
  by (simp_all add: called_def notifications_def)

lemma db_update_simps:
  "calls (w\<lparr>db := d\<rparr>) = calls w" "notifications (w\<lparr>db := d\<rparr>) = notifications w"
  by (simp_all add: notifications_def)

lemma repo_exists_simps:
  "fst (repo_exists rid w) = (rounds_tbl (db w) (round_key rid) \<noteq> None)"
  "db (snd (repo_exists rid w)) = db w"
  "calls (snd (repo_exists rid w)) = calls w @ [RepoExists rid]"
  "notifications (snd (repo_exists rid w)) = notifications w"
  by (simp_all add: repo_exists_def called_simps)

lemma delete_attempts_simps:
  "delete_attempts (logger l m x w) = delete_attempts w"
  "delete_attempts (called c w) = delete_attempts w + (if is_delete c then 1 else 0)"
  "delete_attempts (w\<lparr>db := d\<rparr>) = delete_attempts w"
  "delete_attempts (w\<lparr>logs := ls\<rparr>) = delete_attempts w"
  by (simp_all add: delete_attempts_def logger_def called_def)

lemma delete_attempts_calls: "calls w' = calls w \<Longrightarrow> delete_attempts w' = delete_attempts w"
  by (simp add: delete_attempts_def)

lemma repo_deleteRound_simps:
  "isl (fst (repo_deleteRound e rid w)) = delete_fault e (delete_attempts w)"
  "db (snd (repo_deleteRound e rid w)) =
     (if delete_fault e (delete_attempts w) then db w else stmtDeleteRound (round_key rid) (db w))"
  "calls (snd (repo_deleteRound e rid w)) = calls w @ [RepoDeleteRound rid]"
  "notifications (snd (repo_deleteRound e rid w)) = notifications w"
  by (simp_all add: repo_deleteRound_def Let_def called_simps logger_simps db_update_simps)

text \<open>
  \<open>handleFailure\<close> throws exactly when the delete does; then the store is untouched and
  nothing is notified. Otherwise the round is deleted and one notification is sent.
\<close>

lemma handleFailure_simps:
  "fst (handleFailure e rid reason w) =
     (if delete_fault e (delete_attempts w) then Inl (SqliteError ''disk I/O error'') else Inr ())"
  "db (snd (handleFailure e rid reason w)) =
     (if delete_fault e (delete_attempts w) then db w else stmtDeleteRound (round_key rid) (db w))"
  "calls (snd (handleFailure e rid reason w)) =
     (if delete_fault e (delete_attempts w) then calls w @ [RepoDeleteRound rid]
      else calls w @ [RepoDeleteRound rid, NotifyFailure (Some rid) reason []])"
  "notifications (snd (handleFailure e rid reason w)) =
     (if delete_fault e (delete_attempts w) then notifications w
      else notifications w @ [(Some rid, reason)])"
  by (simp_all add: handleFailure_def repo_deleteRound_def Let_def notifyFailure_def called_simps
      logger_simps db_update_simps)

lemma returnFalseAfter_simps:
  "fst (returnFalseAfter r) = (case fst r of Inl err \<Rightarrow> Inl err | Inr u \<Rightarrow> Inr False)"
  "snd (returnFalseAfter r) = snd r"
  by (simp_all add: returnFalseAfter_def split: prod.splits sum.splits)

lemma transaction_simps:
  "fst (transaction body d) = (case body d of Inl e \<Rightarrow> Inl e | Inr d' \<Rightarrow> Inr ())"
  "snd (transaction body d) = (case body d of Inl e \<Rightarrow> d | Inr d' \<Rightarrow> d')"
  by (simp_all add: transaction_def split: sum.splits)

lemma repo_insertPreFin_simps:
  "fst (repo_insertPreFin fault data w) =
     (case run_all fault 0 (stmtInsertRound (round_key (roundId_pre data)) (round_cols_of data)
                  # map (stmtInsertTile (round_key (roundId_pre data))) (tiles_pre data)) (db w) of
        Inl e \<Rightarrow> Inl e | Inr d' \<Rightarrow> Inr ())"
  "db (snd (repo_insertPreFin fault data w)) =
     (case run_all fault 0 (stmtInsertRound (round_key (roundId_pre data)) (round_cols_of data)
                  # map (stmtInsertTile (round_key (roundId_pre data))) (tiles_pre data)) (db w) of
        Inl e \<Rightarrow> db w | Inr d' \<Rightarrow> d')"
  "calls (snd (repo_insertPreFin fault data w)) = calls w @ [RepoInsertPreFin data]"
  "notifications (snd (repo_insertPreFin fault data w)) = notifications w"
  by (simp_all add: repo_insertPreFin_def Let_def split_beta transaction_simps called_simps
      logger_simps db_update_simps split: sum.splits)

lemma repo_completePostFin_simps:
  "fst (repo_completePostFin fault data w) =
     (case run_all fault 0 (stmtUpdateRoundPostFin (round_key (roundId_post data)) data
                  # map (stmtUpdateTilePostFin (round_key (roundId_post data))) (tiles_post data)) (db w) of
        Inl e \<Rightarrow> Inl e | Inr d' \<Rightarrow> Inr ())"
  "db (snd (repo_completePostFin fault data w)) =
     (case run_all fault 0 (stmtUpdateRoundPostFin (round_key (roundId_post data)) data
                  # map (stmtUpdateTilePostFin (round_key (roundId_post data))) (tiles_post data)) (db w) of
        Inl e \<Rightarrow> db w | Inr d' \<Rightarrow> d')"
  "calls (snd (repo_completePostFin fault data w)) = calls w @ [RepoCompletePostFin data]"
  "notifications (snd (repo_completePostFin fault data w)) = notifications w"
  by (simp_all add: repo_completePostFin_def Let_def split_beta transaction_simps called_simps
      logger_simps db_update_simps split: sum.splits)

lemma fetchRoundState_simps:
  "fst (fetchRoundState e rid w) = chain e rid"
  "db (snd (fetchRoundState e rid w)) = db w"
  "calls (snd (fetchRoundState e rid w)) = calls w @ [FetchRoundState rid]"
  "notifications (snd (fetchRoundState e rid w)) = notifications w"
  by (simp_all add: fetchRoundState_def called_simps)

lemma fetchRoundStateOrNull_simps:
  "fst (fetchRoundStateOrNull e rid w) = (case chain e rid of Inl err \<Rightarrow> None | Inr rs \<Rightarrow> Some rs)"
  "db (snd (fetchRoundStateOrNull e rid w)) = db w"
  "calls (snd (fetchRoundStateOrNull e rid w)) = calls w @ [FetchRoundState rid]"
  "notifications (snd (fetchRoundStateOrNull e rid w)) = notifications w"
  by (simp_all add: fetchRoundStateOrNull_def fetchRoundState_def called_simps split: sum.splits)

lemma getPrices_simps:
  "fst (getPrices e cachedData w) =
     (case cachedData of
        Some c \<Rightarrow> Inr (priceQuote c, miningCost c, 0)
      | None \<Rightarrow> (case priceFetch e of
                   Inl err \<Rightarrow> Inl err
                 | Inr pq \<Rightarrow> (case miningCostFetch e of
                               Inl err \<Rightarrow> Inl err
                             | Inr mc \<Rightarrow> Inr (pq, mc, priceFetchLatency e))))"
  "db (snd (getPrices e cachedData w)) = db w"
  "notifications (snd (getPrices e cachedData w)) = notifications w"
  by (simp_all add: getPrices_def Let_def called_simps logger_simps split: option.splits sum.splits)

lemmas world_simps = logger_simps called_simps repo_exists_simps handleFailure_simps
  returnFalseAfter_simps
  repo_insertPreFin_simps repo_completePostFin_simps fetchRoundState_simps
  fetchRoundStateOrNull_simps getPrices_simps

subsection \<open>Pre-fin collection\<close>

text \<open>
  C8. When the round already has a row in the store, \<open>collectPreFin\<close> returns true, and
  all it did was the existence query: the store is unchanged, nothing was inserted or
  deleted, and no failure notification was sent.
\<close>

theorem collectPreFin_existing:
  assumes "rounds_tbl (db w) (round_key (roundId (board ctx))) = Some row"
  shows "fst (collectPreFin e ctx cached w)
       \<and> db (snd (collectPreFin e ctx cached w)) = db w
       \<and> calls (snd (collectPreFin e ctx cached w)) = calls w @ [RepoExists (roundId (board ctx))]
       \<and> notifications (snd (collectPreFin e ctx cached w)) = notifications w"
  using assms
  by (simp add: collectPreFin_def collectPreFin_try_def Let_def case_prod_beta world_simps)

lemma collectPreFin_try_result:
  "fst (collectPreFin_try e ctx cached w) = Inr ok \<Longrightarrow> ok"
  by (auto simp add: collectPreFin_try_def Let_def case_prod_beta split: if_splits sum.splits)

lemma collectPreFin_try_raised:
  assumes "rounds_tbl (db w) (round_key (roundId (board ctx))) = None"
    and "fst (collectPreFin_try e ctx cached w) = Inl err"
  shows "db (snd (collectPreFin_try e ctx cached w)) = db w
       \<and> notifications (snd (collectPreFin_try e ctx cached w)) = notifications w"
  using assms
  by (auto simp add: collectPreFin_try_def Let_def case_prod_beta world_simps
      split: if_splits sum.splits)

lemma run_all_fault:
  "n \<le> k \<Longrightarrow> k < n + length stmts \<Longrightarrow> isl (run_all (Some k) n stmts d)"
proof (induction stmts arbitrary: n d)
  case Nil
  then show ?case by simp
next
  case (Cons stmt rest)
  show ?case
  proof (cases "k = n")
    case True
    then show ?thesis by simp
  next
    case False
    with Cons.prems have "Suc n \<le> k" "k < Suc n + length rest" by simp_all
    then have "isl (run_all (Some k) (Suc n) rest d')" for d' by (rule Cons.IH)
    with False show ?thesis by (simp split: sum.splits)
  qed
qed

lemma for_each_length: "for_each f xs = Inr ys \<Longrightarrow> length ys = length xs"
  by (induction xs arbitrary: ys) (auto split: sum.splits)

lemma calculateAllTileEvs_length:
  "calculateAllTileEvs rs pq = Inr tileEvs \<Longrightarrow> length tileEvs = 25"
  by (auto simp add: calculateAllTileEvs_def Let_def dest: for_each_length)

lemma collectPreFin_ok:
  "fst (collectPreFin e ctx cached w) =
     (\<not> isl (fst (collectPreFin_try e ctx cached
         (logger ''info'' ''Phase 2: Starting EV snapshot''
            [(''roundId'', LInt (roundId (board ctx))),
             (''remainingSlots'', LInt (remainingSlots_ctx ctx)),
             (''usedCachedPrices'', LBool (cached \<noteq> None))] w))))"
  using collectPreFin_try_result
  by (auto simp add: collectPreFin_def Let_def case_prod_beta split: sum.splits)

lemma collectPreFin_try_isl:
  assumes "rounds_tbl (db w) (round_key (roundId (board ctx))) = None"
  shows "isl (fst (collectPreFin_try e ctx cached w)) =
     (case fst (getPrices e cached w) of
        Inl err \<Rightarrow> True
      | Inr p \<Rightarrow>
         (case chain e (roundId (board ctx)) of
            Inl err \<Rightarrow> True
          | Inr rs \<Rightarrow>
             (case calculateAllTileEvs rs (fst p) of
                Inl err \<Rightarrow> True
              | Inr tileEvs \<Rightarrow>
                  isl (run_all (io_fault e) 0
                    (stmtInsertRound (round_key (roundId (board ctx)))
                       (round_cols_of (buildPreFin e ctx (fst p) (fst (snd p)) (snd (snd p)) rs
                          (rankTilesByEv tileEvs)))
                     # map (stmtInsertTile (round_key (roundId (board ctx)))) (rankTilesByEv tileEvs))
                    (db w)))))"
  using assms
  by (auto simp add: collectPreFin_try_def Let_def case_prod_beta world_simps buildPreFin_def
      split: sum.splits)

lemma collectPreFin_failed:
  assumes none: "rounds_tbl (db w) (round_key (roundId (board ctx))) = None"
    and failed: "\<not> fst (collectPreFin e ctx cached w)"
  shows "db (snd (collectPreFin e ctx cached w)) = db w
       \<and> (\<exists>reason. notifications (snd (collectPreFin e ctx cached w))
                      = notifications w @ [(Some (roundId (board ctx)), reason)])"
proof -
  let ?w0 = "logger ''info'' ''Phase 2: Starting EV snapshot''
            [(''roundId'', LInt (roundId (board ctx))),
             (''remainingSlots'', LInt (remainingSlots_ctx ctx)),
             (''usedCachedPrices'', LBool (cached \<noteq> None))] w"
  from failed obtain err where err: "fst (collectPreFin_try e ctx cached ?w0) = Inl err"
    unfolding collectPreFin_ok by (cases "fst (collectPreFin_try e ctx cached ?w0)") auto
  from none have "rounds_tbl (db ?w0) (round_key (roundId (board ctx))) = None"
    by (simp add: logger_simps)
  then have "db (snd (collectPreFin_try e ctx cached ?w0)) = db ?w0
       \<and> notifications (snd (collectPreFin_try e ctx cached ?w0)) = notifications ?w0"
    using err by (rule collectPreFin_try_raised)
  with err show ?thesis
    by (simp add: collectPreFin_def Let_def case_prod_beta notifyFailure_def world_simps)
qed

text \<open>
  C2. Take a round with no row in the store (and a store whose tiles all belong to a
  round row, as its foreign key enforces). Each failure of phase 2 makes
  \<open>collectPreFin\<close> return false: missing price data (no cache and a fetcher that
  fails), a failed round-state fetch, a computation that throws, a store insert that
  fails. Whenever it returns false, the store is exactly as before, with no round row
  and no tile row for the round, and exactly one failure notification was sent, carrying
  the round id and a reason.
\<close>

theorem collectPreFin_failure:
  assumes run: "collectPreFin e ctx cached w = (ok, w')"
    and none: "rounds_tbl (db w) (round_key (roundId (board ctx))) = None"
    and fk: "foreign_keys_hold (db w)"
  shows "(cached = None \<and> (isl (priceFetch e) \<or> isl (miningCostFetch e)) \<longrightarrow> \<not> ok)
       \<and> (isl (chain e (roundId (board ctx))) \<longrightarrow> \<not> ok)
       \<and> ((\<exists>p rs. fst (getPrices e cached w) = Inr p \<and> chain e (roundId (board ctx)) = Inr rs
                   \<and> isl (calculateAllTileEvs rs (fst p))) \<longrightarrow> \<not> ok)
       \<and> ((\<exists>k. io_fault e = Some k \<and> k \<le> 25) \<longrightarrow> \<not> ok)
       \<and> (\<not> ok \<longrightarrow>
             db w' = db w
             \<and> rounds_tbl (db w') (round_key (roundId (board ctx))) = None
             \<and> (\<forall>i. tiles_tbl (db w') (round_key (roundId (board ctx)), i) = None)
             \<and> (\<exists>reason. notifications w' = notifications w @ [(Some (roundId (board ctx)), reason)]))"
proof -
  let ?w0 = "logger ''info'' ''Phase 2: Starting EV snapshot''
            [(''roundId'', LInt (roundId (board ctx))),
             (''remainingSlots'', LInt (remainingSlots_ctx ctx)),
             (''usedCachedPrices'', LBool (cached \<noteq> None))] w"
  from run have ok: "ok = fst (collectPreFin e ctx cached w)"
    and w': "w' = snd (collectPreFin e ctx cached w)" by simp_all
  from none have none0: "rounds_tbl (db ?w0) (round_key (roundId (board ctx))) = None"
    by (simp add: logger_simps)
  note isl = collectPreFin_try_isl [OF none0, of e cached]
  have okc: "ok = (\<not> isl (fst (collectPreFin_try e ctx cached ?w0)))"
    unfolding ok by (rule collectPreFin_ok)
  have a: "\<not> ok" if "cached = None \<and> (isl (priceFetch e) \<or> isl (miningCostFetch e))"
    using that unfolding okc isl by (auto simp add: getPrices_simps split: sum.splits)
  have b: "\<not> ok" if "isl (chain e (roundId (board ctx)))"
    using that unfolding okc isl by (auto split: sum.splits)
  have c: "\<not> ok" if "fst (getPrices e cached w) = Inr p" "chain e (roundId (board ctx)) = Inr rs"
      "isl (calculateAllTileEvs rs (fst p))" for p rs
    using that unfolding okc isl by (auto simp add: getPrices_simps split: sum.splits)
  have d: "\<not> ok" if k: "io_fault e = Some k" "k \<le> 25" for k
  proof -
    have "isl (run_all (Some k) 0 (stmt # map f (rankTilesByEv tileEvs)) d)"
      if "calculateAllTileEvs rs pq = Inr tileEvs" for stmt f rs pq tileEvs d
      using k(2) calculateAllTileEvs_length [OF that]
      by (intro run_all_fault) (simp_all add: length_rankTilesByEv)
    then show ?thesis unfolding okc isl k(1) by (auto split: sum.splits)
  qed
  have f: "db w' = db w
             \<and> rounds_tbl (db w') (round_key (roundId (board ctx))) = None
             \<and> (\<forall>i. tiles_tbl (db w') (round_key (roundId (board ctx)), i) = None)
             \<and> (\<exists>reason. notifications w' = notifications w @ [(Some (roundId (board ctx)), reason)])"
    if "\<not> ok"
  proof -
    from that have "\<not> fst (collectPreFin e ctx cached w)" by (simp add: ok)
    with none have g: "db w' = db w
       \<and> (\<exists>reason. notifications w' = notifications w @ [(Some (roundId (board ctx)), reason)])"
      unfolding w' by (rule collectPreFin_failed)
    moreover have "tiles_tbl (db w) (round_key (roundId (board ctx)), i) = None" for i
      using fk none unfolding foreign_keys_hold_def by blast
    ultimately show ?thesis using none by simp
  qed
  from a b c d f show ?thesis by blast
qed

theorem collectPreFin_failure_witness:
  "rounds_tbl (db emptyWorld) (round_key (roundId (board ctx5))) = None
   \<and> foreign_keys_hold (db emptyWorld)
   \<and> isl (chain offlineEnv (roundId (board ctx5)))
   \<and> \<not> fst (collectPreFin offlineEnv ctx5 None emptyWorld)
   \<and> db (snd (collectPreFin offlineEnv ctx5 None emptyWorld)) = db emptyWorld
   \<and> (\<exists>reason. notifications (snd (collectPreFin offlineEnv ctx5 None emptyWorld))
          = notifications emptyWorld @ [(Some (roundId (board ctx5)), reason)])"
  using collectPreFin_failure [of offlineEnv ctx5 None emptyWorld
      "fst (collectPreFin offlineEnv ctx5 None emptyWorld)"
      "snd (collectPreFin offlineEnv ctx5 None emptyWorld)"]
  by (simp add: emptyWorld_def offlineEnv_def ctx5_def foreign_keys_hold_def)

subsection \<open>Post-fin completion\<close>

lemma agree_outside_refl: "agree_outside key d d"
  by (simp add: agree_outside_def)

lemma agree_outside_trans:
  "agree_outside key d d' \<Longrightarrow> agree_outside key d' d'' \<Longrightarrow> agree_outside key d d''"
  by (simp add: agree_outside_def)

lemma stmtUpdateRoundPostFin_agree:
  "stmtUpdateRoundPostFin key data d = Inr d' \<Longrightarrow> agree_outside key d d'"
  by (auto simp add: stmtUpdateRoundPostFin_def agree_outside_def split: option.splits if_splits)

lemma stmtUpdateTilePostFin_agree:
  "stmtUpdateTilePostFin key tile d = Inr d' \<Longrightarrow> agree_outside key d d'"
  by (auto simp add: stmtUpdateTilePostFin_def agree_outside_def split: option.splits)

lemma run_all_agree:
  assumes "\<And>stmt d d'. stmt \<in> set stmts \<Longrightarrow> stmt d = Inr d' \<Longrightarrow> agree_outside key d d'"
    and "run_all fault n stmts d = Inr d'"
  shows "agree_outside key d d'"
  using assms
proof (induction stmts arbitrary: n d)
  case Nil
  then show ?case by (simp add: agree_outside_refl)
next
  case (Cons stmt rest)
  from Cons.prems(2) obtain d1 where d1: "stmt d = Inr d1" "run_all fault (Suc n) rest d1 = Inr d'"
    by (auto split: if_splits sum.splits)
  have "agree_outside key d d1" using Cons.prems(1) [of stmt d d1] d1(1) by simp
  moreover have "agree_outside key d1 d'"
  proof (rule Cons.IH [OF _ d1(2)])
    fix s a a'
    assume "s \<in> set rest" "s a = Inr a'"
    then show "agree_outside key a a'" using Cons.prems(1) [of s a a'] by simp
  qed
  ultimately show ?case by (rule agree_outside_trans)
qed

lemma stmtDeleteRound_agree:
  "agree_outside key d d' \<Longrightarrow> stmtDeleteRound key d' = stmtDeleteRound key d"
  by (auto simp add: stmtDeleteRound_def agree_outside_def fun_eq_iff)

lemma update_transaction_agree:
  assumes "run_all fault 0 (stmtUpdateRoundPostFin key data # map (stmtUpdateTilePostFin key) ts) d = Inr d'"
  shows "stmtDeleteRound key d' = stmtDeleteRound key d"
proof -
  have "agree_outside key d d'"
    using _ assms
  proof (rule run_all_agree)
    fix stmt d d'
    assume "stmt \<in> set (stmtUpdateRoundPostFin key data # map (stmtUpdateTilePostFin key) ts)"
      and "stmt d = Inr d'"
    then show "agree_outside key d d'"
      by (auto simp add: stmtUpdateRoundPostFin_agree stmtUpdateTilePostFin_agree)
  qed
  then show ?thesis by (rule stmtDeleteRound_agree)
qed

lemma stmtDeleteRound_gone:
  "rounds_tbl (stmtDeleteRound key d) key = None"
  "tiles_tbl (stmtDeleteRound key d) (key, i) = None"
  by (simp_all add: stmtDeleteRound_def)

lemma length_tiles_post: "length (tiles_post (buildPostFin e rid rs rng tile)) = 25"
  by (simp add: buildPostFin_def)

lemma roundId_post_build: "roundId_post (buildPostFin e rid rs rng tile) = rid"
  by (simp add: buildPostFin_def)

lemma update_rollback_agree:
  "stmtDeleteRound key
     (case run_all fault 0 (stmtUpdateRoundPostFin key data # map (stmtUpdateTilePostFin key) ts) d of
        Inl e \<Rightarrow> d | Inr d' \<Rightarrow> d')
   = stmtDeleteRound key d"
  by (cases "run_all fault 0 (stmtUpdateRoundPostFin key data # map (stmtUpdateTilePostFin key) ts) d")
     (simp_all add: update_transaction_agree del: run_all.simps)

lemma completeValidRound_result: "fst (completeValidRound e rid rs w) = Inr ok \<Longrightarrow> ok"
  by (auto simp add: completeValidRound_def Let_def case_prod_beta
      split: sum.splits option.splits)

lemma completeValidRound_effects:
  "notifications (snd (completeValidRound e rid rs w)) = notifications w"
  "stmtDeleteRound (round_key rid) (db (snd (completeValidRound e rid rs w)))
     = stmtDeleteRound (round_key rid) (db w)"
  by (auto simp add: completeValidRound_def Let_def case_prod_beta world_simps roundId_post_build
      update_rollback_agree simp del: run_all.simps split: sum.splits option.splits)

lemma completeValidRound_true:
  assumes "fst (completeValidRound e rid rs w) = Inr True"
  shows "\<exists>rng tile. computeRng (slotHash rs) = Inr rng \<and> computeWinningTile (slotHash rs) = Inr tile
             \<and> run_all (io_fault e) 0
                  (stmtUpdateRoundPostFin (round_key rid) (buildPostFin e rid rs rng tile)
                   # map (stmtUpdateTilePostFin (round_key rid))
                       (tiles_post (buildPostFin e rid rs rng tile))) (db w)
                 = Inr (db (snd (completeValidRound e rid rs w)))"
  using assms
  by (auto simp add: completeValidRound_def Let_def case_prod_beta world_simps roundId_post_build
      simp del: run_all.simps split: sum.splits option.splits)

lemma completeValidRound_logs:
  assumes "db w' = db w" "calls w' = calls w"
  shows "fst (completeValidRound e rid rs w') = fst (completeValidRound e rid rs w)
   \<and> db (snd (completeValidRound e rid rs w')) = db (snd (completeValidRound e rid rs w))
   \<and> calls (snd (completeValidRound e rid rs w')) = calls (snd (completeValidRound e rid rs w))"
  using assms
  by (auto simp add: completeValidRound_def Let_def case_prod_beta world_simps
      simp del: run_all.simps split: sum.splits option.splits)

lemma completeValidRound_attempts:
  "delete_attempts (snd (completeValidRound e rid rs w)) = delete_attempts w"
  by (auto simp add: completeValidRound_def Let_def case_prod_beta world_simps delete_attempts_def
      simp del: run_all.simps split: sum.splits option.splits)

lemma completePostFin_try_false:
  assumes "rounds_tbl (db w) (round_key rid) \<noteq> None"
    and "fst (completePostFin_try e rid w) = Inr False"
  shows "db (snd (completePostFin_try e rid w)) = stmtDeleteRound (round_key rid) (db w)
       \<and> (\<exists>reason. notifications (snd (completePostFin_try e rid w))
                      = notifications w @ [(Some rid, reason)])"
  using assms completeValidRound_result [of e rid _ _ False]
  by (auto simp add: completePostFin_try_def Let_def case_prod_beta world_simps
      split: if_splits sum.splits)

lemma completePostFin_try_raised:
  assumes "rounds_tbl (db w) (round_key rid) \<noteq> None"
    and "fst (completePostFin_try e rid w) = Inl err"
  shows "stmtDeleteRound (round_key rid) (db (snd (completePostFin_try e rid w)))
           = stmtDeleteRound (round_key rid) (db w)
       \<and> notifications (snd (completePostFin_try e rid w)) = notifications w"
  using assms
  by (auto simp add: completePostFin_try_def Let_def case_prod_beta world_simps
      completeValidRound_effects split: if_splits sum.splits)

lemma completePostFin_try_true:
  assumes "rounds_tbl (db w) (round_key rid) \<noteq> None"
    and "fst (completePostFin_try e rid w) = Inr True"
  shows "notifications (snd (completePostFin_try e rid w)) = notifications w
       \<and> (\<exists>rs rng tile. chain e rid = Inr rs \<and> isSlotHashValid (slotHash rs)
             \<and> computeRng (slotHash rs) = Inr rng \<and> computeWinningTile (slotHash rs) = Inr tile
             \<and> run_all (io_fault e) 0
                  (stmtUpdateRoundPostFin (round_key rid) (buildPostFin e rid rs rng tile)
                   # map (stmtUpdateTilePostFin (round_key rid))
                       (tiles_post (buildPostFin e rid rs rng tile))) (db w)
                 = Inr (db (snd (completePostFin_try e rid w))))"
proof -
  let ?w2 = "snd (fetchRoundStateOrNull e rid (snd (repo_exists rid w)))"
  from assms obtain rs where rs: "chain e rid = Inr rs" "isSlotHashValid (slotHash rs)"
      and t: "completePostFin_try e rid w = completeValidRound e rid rs ?w2"
    by (auto simp add: completePostFin_try_def Let_def case_prod_beta world_simps
        split: if_splits sum.splits)
  from assms(2) have "fst (completeValidRound e rid rs ?w2) = Inr True" by (simp add: t)
  from completeValidRound_true [OF this] rs show ?thesis
    unfolding t by (simp add: world_simps completeValidRound_effects del: run_all.simps)
qed

lemma completePostFin_try_logs:
  "fst (completePostFin_try e rid (w\<lparr>logs := l\<rparr>)) = fst (completePostFin_try e rid w)
   \<and> db (snd (completePostFin_try e rid (w\<lparr>logs := l\<rparr>))) = db (snd (completePostFin_try e rid w))
   \<and> calls (snd (completePostFin_try e rid (w\<lparr>logs := l\<rparr>))) = calls (snd (completePostFin_try e rid w))"
proof -
  let ?w2 = "snd (fetchRoundStateOrNull e rid (snd (repo_exists rid w)))"
  let ?w2' = "snd (fetchRoundStateOrNull e rid (snd (repo_exists rid (w\<lparr>logs := l\<rparr>))))"
  have "db ?w2' = db ?w2" "calls ?w2' = calls ?w2" by (simp_all add: world_simps)
  then have v: "fst (completeValidRound e rid rs ?w2') = fst (completeValidRound e rid rs ?w2)
   \<and> db (snd (completeValidRound e rid rs ?w2')) = db (snd (completeValidRound e rid rs ?w2))
   \<and> calls (snd (completeValidRound e rid rs ?w2')) = calls (snd (completeValidRound e rid rs ?w2))" for rs
    by (rule completeValidRound_logs)
  show ?thesis
    using v
    by (auto simp add: completePostFin_try_def Let_def case_prod_beta world_simps
        delete_attempts_def split: if_splits sum.splits)
qed

text \<open>
  A missing account or an invalid seed ends the \<open>try\<close> block in \<open>handleFailure\<close>: the
  block returns false when the delete went through and throws when it did not.
\<close>

lemma completePostFin_try_not_found:
  assumes "rounds_tbl (db w) (round_key rid) \<noteq> None"
    and "isl (chain e rid) \<or> (\<exists>rs. chain e rid = Inr rs \<and> \<not> isSlotHashValid (slotHash rs))"
  shows "fst (completePostFin_try e rid w) =
           (if delete_fault e (delete_attempts w) then Inl (SqliteError ''disk I/O error'')
            else Inr False)"
    and "delete_attempts (snd (completePostFin_try e rid w)) = Suc (delete_attempts w)"
  using assms
  by (auto simp add: completePostFin_try_def Let_def case_prod_beta world_simps
      delete_attempts_def split: if_splits sum.splits)

lemma notifications_calls: "calls w' = calls w \<Longrightarrow> notifications w' = notifications w"
  by (simp add: notifications_def)

text \<open>
  \<open>completePostFin\<close> in terms of its \<open>try\<close> block: what the block returned, or, when it
  threw, the outcome of \<open>handleFailure\<close> in the \<open>catch\<close>.
\<close>

lemma completePostFin_obs:
  "fst (completePostFin e ctx w) =
     (case fst (completePostFin_try e (previousRoundId ctx) w) of
        Inl err \<Rightarrow>
          if delete_fault e (delete_attempts (snd (completePostFin_try e (previousRoundId ctx) w)))
          then Inl (SqliteError ''disk I/O error'') else Inr False
      | Inr ok \<Rightarrow> Inr ok)"
  "db (snd (completePostFin e ctx w)) =
     (case fst (completePostFin_try e (previousRoundId ctx) w) of
        Inl err \<Rightarrow>
          if delete_fault e (delete_attempts (snd (completePostFin_try e (previousRoundId ctx) w)))
          then db (snd (completePostFin_try e (previousRoundId ctx) w))
          else stmtDeleteRound (round_key (previousRoundId ctx))
                 (db (snd (completePostFin_try e (previousRoundId ctx) w)))
      | Inr ok \<Rightarrow> db (snd (completePostFin_try e (previousRoundId ctx) w)))"
  "calls (snd (completePostFin e ctx w)) =
     (case fst (completePostFin_try e (previousRoundId ctx) w) of
        Inl err \<Rightarrow>
          if delete_fault e (delete_attempts (snd (completePostFin_try e (previousRoundId ctx) w)))
          then calls (snd (completePostFin_try e (previousRoundId ctx) w))
                 @ [RepoDeleteRound (previousRoundId ctx)]
          else calls (snd (completePostFin_try e (previousRoundId ctx) w))
                 @ [RepoDeleteRound (previousRoundId ctx),
                    NotifyFailure (Some (previousRoundId ctx))
                      (''Post-fin completion failed: '' @ message err) []]
      | Inr ok \<Rightarrow> calls (snd (completePostFin_try e (previousRoundId ctx) w)))"
proof -
  let ?rid = "previousRoundId ctx"
  let ?l = "logs w @ [(''info'', ''Starting post-fin completion'',
                 [(''roundId'', LInt ?rid), (''newRoundId'', LInt (roundId (newBoard ctx)))])]"
  let ?U = "completePostFin_try e ?rid (w\<lparr>logs := ?l\<rparr>)"
  let ?T = "completePostFin_try e ?rid w"
  note t = completePostFin_try_logs [where e = e and rid = ?rid and w = w and l = ?l]
  from t have "calls (snd ?U) = calls (snd ?T)" by simp
  then have a: "delete_attempts (snd ?U) = delete_attempts (snd ?T)"
    by (rule delete_attempts_calls)
  have c: "completePostFin e ctx w =
      (case fst ?U of
         Inr ok \<Rightarrow> (Inr ok, snd ?U)
       | Inl err \<Rightarrow>
           returnFalseAfter
             (handleFailure e ?rid (''Post-fin completion failed: '' @ message err)
                (logger ''error'' ''Post-fin completion failed''
                   [(''roundId'', LInt ?rid), (''error'', LStr (message err))] (snd ?U))))"
  proof (cases ?U)
    case (Pair r w1)
    then show ?thesis
      by (cases r) (simp_all add: completePostFin_def Let_def logger_def [of _ _ _ w])
  qed
  show "fst (completePostFin e ctx w) =
     (case fst ?T of
        Inl err \<Rightarrow>
          if delete_fault e (delete_attempts (snd ?T))
          then Inl (SqliteError ''disk I/O error'') else Inr False
      | Inr ok \<Rightarrow> Inr ok)"
  proof (cases "fst ?U")
    case (Inl err)
    with t have "fst ?T = Inl err" by simp
    with Inl a show ?thesis
      by (simp add: c returnFalseAfter_simps handleFailure_simps delete_attempts_simps)
  next
    case (Inr ok)
    with t have "fst ?T = Inr ok" by simp
    with Inr show ?thesis by (simp add: c)
  qed
  show "db (snd (completePostFin e ctx w)) =
     (case fst ?T of
        Inl err \<Rightarrow>
          if delete_fault e (delete_attempts (snd ?T))
          then db (snd ?T)
          else stmtDeleteRound (round_key ?rid) (db (snd ?T))
      | Inr ok \<Rightarrow> db (snd ?T))"
  proof (cases "fst ?U")
    case (Inl err)
    with t have "fst ?T = Inl err" by simp
    with Inl a t show ?thesis
      by (simp add: c returnFalseAfter_simps handleFailure_simps delete_attempts_simps
          logger_simps)
  next
    case (Inr ok)
    with t have "fst ?T = Inr ok" by simp
    with Inr t show ?thesis by (simp add: c)
  qed
  show "calls (snd (completePostFin e ctx w)) =
     (case fst ?T of
        Inl err \<Rightarrow>
          if delete_fault e (delete_attempts (snd ?T))
          then calls (snd ?T) @ [RepoDeleteRound ?rid]
          else calls (snd ?T)
                 @ [RepoDeleteRound ?rid,
                    NotifyFailure (Some ?rid)
                      (''Post-fin completion failed: '' @ message err) []]
      | Inr ok \<Rightarrow> calls (snd ?T))"
  proof (cases "fst ?U")
    case (Inl err)
    with t have "fst ?T = Inl err" by simp
    with Inl a t show ?thesis
      by (simp add: c returnFalseAfter_simps handleFailure_simps delete_attempts_simps
          logger_simps)
  next
    case (Inr ok)
    with t have "fst ?T = Inr ok" by simp
    with Inr t show ?thesis by (simp add: c)
  qed
qed

text \<open>
  C9. For every previous round id and any two values of the \<open>newBoard\<close> parameter,
  \<open>completePostFin\<close> returns the same result, leaves the same store and makes the same
  calls to the repository, the chain and the notifier, in the same order; so does a run
  with the placeholder board of startup recovery. The parameter is read once, for the
  first log line, which prints \<open>newBoard.roundId\<close>.
\<close>

theorem completePostFin_newBoard_irrelevant:
  "fst (completePostFin e \<lparr>previousRoundId = rid, newBoard = b1\<rparr> w)
     = fst (completePostFin e \<lparr>previousRoundId = rid, newBoard = b2\<rparr> w)
   \<and> db (snd (completePostFin e \<lparr>previousRoundId = rid, newBoard = b1\<rparr> w))
     = db (snd (completePostFin e \<lparr>previousRoundId = rid, newBoard = b2\<rparr> w))
   \<and> calls (snd (completePostFin e \<lparr>previousRoundId = rid, newBoard = b1\<rparr> w))
     = calls (snd (completePostFin e \<lparr>previousRoundId = rid, newBoard = b2\<rparr> w))
   \<and> fst (completePostFin e \<lparr>previousRoundId = rid, newBoard = recoveryBoard rid\<rparr> w)
     = fst (completePostFin e \<lparr>previousRoundId = rid, newBoard = b1\<rparr> w)
   \<and> db (snd (completePostFin e \<lparr>previousRoundId = rid, newBoard = recoveryBoard rid\<rparr> w))
     = db (snd (completePostFin e \<lparr>previousRoundId = rid, newBoard = b1\<rparr> w))
   \<and> calls (snd (completePostFin e \<lparr>previousRoundId = rid, newBoard = recoveryBoard rid\<rparr> w))
     = calls (snd (completePostFin e \<lparr>previousRoundId = rid, newBoard = b1\<rparr> w))"
  by (simp add: completePostFin_obs split: sum.splits)

subsection \<open>Completion of a round: failure handling and the split flag\<close>

lemma round_key_small: "\<bar>rid\<bar> < 2 ^ 53 \<Longrightarrow> round_key rid = rid"
  by (simp add: round_key_def bigint_to_number_exact)

theorem collectPreFin_existing_witness:
  "rounds_tbl (db pendingWorld) (round_key (roundId (board ctx5)))
     = Some \<lparr>pre_cols = sampleCols, post_cols = pending_cols\<rparr>
   \<and> fst (collectPreFin offlineEnv ctx5 None pendingWorld)
   \<and> db (snd (collectPreFin offlineEnv ctx5 None pendingWorld)) = db pendingWorld
   \<and> calls (snd (collectPreFin offlineEnv ctx5 None pendingWorld)) = [RepoExists 5]
   \<and> notifications (snd (collectPreFin offlineEnv ctx5 None pendingWorld)) = []"
  using collectPreFin_existing [of pendingWorld ctx5 "\<lparr>pre_cols = sampleCols, post_cols = pending_cols\<rparr>"
          offlineEnv None]
  by (simp add: pendingWorld_def ctx5_def b5_def round_key_small notifications_def)

lemma run_all_length:
  "run_all fault n stmts d = Inr d' \<Longrightarrow> fault = Some k \<Longrightarrow> n \<le> k \<Longrightarrow> k < n + length stmts \<Longrightarrow> False"
  using run_all_fault [of n k stmts d] by simp

lemma tile_updates_rounds:
  "run_all fault n (map (stmtUpdateTilePostFin key) ts) d = Inr d' \<Longrightarrow> rounds_tbl d' = rounds_tbl d"
proof (induction ts arbitrary: n d)
  case Nil
  then show ?case by simp
next
  case (Cons t ts)
  from Cons.prems obtain d1 where d1: "stmtUpdateTilePostFin key t d = Inr d1"
      "run_all fault (Suc n) (map (stmtUpdateTilePostFin key) ts) d1 = Inr d'"
    by (auto split: if_splits sum.splits)
  from d1(1) have "rounds_tbl d1 = rounds_tbl d"
    by (auto simp add: stmtUpdateTilePostFin_def split: option.splits)
  with Cons.IH [OF d1(2)] show ?case by simp
qed

lemma update_transaction_split:
  assumes "run_all fault 0 (stmtUpdateRoundPostFin key data # map (stmtUpdateTilePostFin key) ts) d = Inr d'"
    and "rounds_tbl d key = Some row"
  shows "\<exists>row'. rounds_tbl d' key = Some row' \<and> pre_cols row' = pre_cols row
           \<and> split_top_miner (post_cols row') = Some (Finite (if splitTopMiner data then 1 else 0))
           \<and> slot_hash (post_cols row') = Some (slotHash_post data)"
proof -
  from assms(1) obtain d1 where d1: "stmtUpdateRoundPostFin key data d = Inr d1"
      "run_all fault (Suc 0) (map (stmtUpdateTilePostFin key) ts) d1 = Inr d'"
    by (auto split: if_splits sum.splits)
  from d1(2) have "rounds_tbl d' = rounds_tbl d1" by (rule tile_updates_rounds)
  moreover from d1(1) assms(2) have "\<exists>row'. rounds_tbl d1 key = Some row' \<and> pre_cols row' = pre_cols row
           \<and> split_top_miner (post_cols row') = Some (Finite (if splitTopMiner data then 1 else 0))
           \<and> slot_hash (post_cols row') = Some (slotHash_post data)"
    by (auto simp add: stmtUpdateRoundPostFin_def split: if_splits)
  ultimately show ?thesis by simp
qed

lemma completePostFin_true:
  "(fst (completePostFin e ctx w) = Inr True)
     = (fst (completePostFin_try e (previousRoundId ctx) w) = Inr True)"
  by (simp add: completePostFin_obs split: sum.splits)

lemma completeValidRound_raised:
  assumes "fst (completeValidRound e rid rs w) = Inl err"
  shows "db (snd (completeValidRound e rid rs w)) = db w
       \<or> (\<exists>rng tile. run_all (io_fault e) 0
                  (stmtUpdateRoundPostFin (round_key rid) (buildPostFin e rid rs rng tile)
                   # map (stmtUpdateTilePostFin (round_key rid))
                       (tiles_post (buildPostFin e rid rs rng tile))) (db w)
                 = Inr (db (snd (completeValidRound e rid rs w))))"
  using assms
  by (auto simp add: completeValidRound_def Let_def case_prod_beta world_simps roundId_post_build
      simp del: run_all.simps split: sum.splits option.splits)

text \<open>
  When the \<open>try\<close> block throws, the store is the one before the call, or the one after
  the whole update transaction (the success log threw after the commit).
\<close>

lemma completePostFin_try_raised_db:
  assumes "rounds_tbl (db w) (round_key rid) \<noteq> None"
    and "fst (completePostFin_try e rid w) = Inl err"
  shows "db (snd (completePostFin_try e rid w)) = db w
       \<or> (\<exists>rs rng tile. run_all (io_fault e) 0
                  (stmtUpdateRoundPostFin (round_key rid) (buildPostFin e rid rs rng tile)
                   # map (stmtUpdateTilePostFin (round_key rid))
                       (tiles_post (buildPostFin e rid rs rng tile))) (db w)
                 = Inr (db (snd (completePostFin_try e rid w))))"
proof -
  let ?w2 = "snd (fetchRoundStateOrNull e rid (snd (repo_exists rid w)))"
  have w2: "db ?w2 = db w" by (simp add: world_simps)
  from assms consider
      (handler) "db (snd (completePostFin_try e rid w)) = db w"
    | (valid) rs where "completePostFin_try e rid w = completeValidRound e rid rs ?w2"
    by (auto simp add: completePostFin_try_def Let_def case_prod_beta world_simps
        split: if_splits sum.splits)
  then show ?thesis
  proof cases
    case handler
    then show ?thesis by simp
  next
    case valid
    with assms(2) have "fst (completeValidRound e rid rs ?w2) = Inl err" by simp
    from completeValidRound_raised [OF this] show ?thesis
      unfolding valid w2 by blast
  qed
qed

text \<open>
  Every outcome of \<open>completePostFin\<close> on a round that has a row in the store. A missing
  account, an invalid seed, an exception in the \<open>try\<close> block or a fault in one of the
  26 statements of the update transaction rule out the result true. The result false
  means the round is deleted (its row and all its tiles) and one notification for it
  was added. The result true means nothing was notified and the whole update
  transaction ran. A rejection means a DELETE raised: the round is still in the store,
  with its completion fields either untouched or written in full, and nothing was
  notified. With a DELETE that never raises the call always returns.
\<close>

lemma completePostFin_outcomes:
  assumes run: "completePostFin e ctx w = (res, w')"
    and row: "rounds_tbl (db w) (round_key (previousRoundId ctx)) = Some row"
  shows "(isl (chain e (previousRoundId ctx)) \<longrightarrow> res \<noteq> Inr True)
       \<and> ((\<exists>rs. chain e (previousRoundId ctx) = Inr rs \<and> \<not> isSlotHashValid (slotHash rs))
            \<longrightarrow> res \<noteq> Inr True)
       \<and> (isl (fst (completePostFin_try e (previousRoundId ctx) w)) \<longrightarrow> res \<noteq> Inr True)
       \<and> ((\<exists>k. io_fault e = Some k \<and> k \<le> 25) \<longrightarrow> res \<noteq> Inr True)
       \<and> (res = Inr False \<longrightarrow>
             db w' = stmtDeleteRound (round_key (previousRoundId ctx)) (db w)
             \<and> rounds_tbl (db w') (round_key (previousRoundId ctx)) = None
             \<and> (\<forall>i. tiles_tbl (db w') (round_key (previousRoundId ctx), i) = None)
             \<and> (\<exists>reason. notifications w' = notifications w @ [(Some (previousRoundId ctx), reason)]))
       \<and> (res = Inr True \<longrightarrow>
             notifications w' = notifications w
             \<and> (\<exists>data. length (tiles_post data) = 25
                  \<and> run_all (io_fault e) 0
                       (stmtUpdateRoundPostFin (round_key (previousRoundId ctx)) data
                        # map (stmtUpdateTilePostFin (round_key (previousRoundId ctx))) (tiles_post data))
                       (db w) = Inr (db w')))
       \<and> (isl res \<longrightarrow>
             (\<exists>n. delete_fault e n)
             \<and> rounds_tbl (db w') (round_key (previousRoundId ctx)) \<noteq> None
             \<and> notifications w' = notifications w
             \<and> (db w' = db w
                \<or> (\<exists>data. run_all (io_fault e) 0
                       (stmtUpdateRoundPostFin (round_key (previousRoundId ctx)) data
                        # map (stmtUpdateTilePostFin (round_key (previousRoundId ctx))) (tiles_post data))
                       (db w) = Inr (db w'))))
       \<and> ((\<forall>n. \<not> delete_fault e n) \<longrightarrow> \<not> isl res)"
proof -
  let ?rid = "previousRoundId ctx"
  let ?key = "round_key ?rid"
  let ?t = "completePostFin_try e ?rid w"
  let ?fault = "delete_fault e (delete_attempts (snd ?t))"
  from run have res: "res = fst (completePostFin e ctx w)" and w': "w' = snd (completePostFin e ctx w)"
    by simp_all
  have true: "(res = Inr True) = (fst ?t = Inr True)"
    unfolding res by (rule completePostFin_true)
  from row have ex: "rounds_tbl (db w) ?key \<noteq> None" by simp
  have nf: "res \<noteq> Inr True"
    if "isl (chain e ?rid) \<or> (\<exists>rs. chain e ?rid = Inr rs \<and> \<not> isSlotHashValid (slotHash rs))"
    using completePostFin_try_not_found(1) [OF ex that] by (simp add: true)
  have x: "res \<noteq> Inr True" if "isl (fst ?t)"
    using that by (auto simp add: true)
  have f: "res \<noteq> Inr True" if k: "io_fault e = Some k" "k \<le> 25" for k
  proof
    assume "res = Inr True"
    then have "fst ?t = Inr True" by (simp add: true)
    from completePostFin_try_true [OF ex this] obtain rs rng tile where
      "run_all (io_fault e) 0
                  (stmtUpdateRoundPostFin ?key (buildPostFin e ?rid rs rng tile)
                   # map (stmtUpdateTilePostFin ?key)
                       (tiles_post (buildPostFin e ?rid rs rng tile))) (db w)
                 = Inr (db (snd ?t))" by blast
    moreover have "isl (run_all (Some k) 0
                  (stmtUpdateRoundPostFin ?key (buildPostFin e ?rid rs rng tile)
                   # map (stmtUpdateTilePostFin ?key)
                       (tiles_post (buildPostFin e ?rid rs rng tile))) (db w))"
      using k(2) by (intro run_all_fault) (simp_all add: length_tiles_post)
    ultimately show False using k(1) by (simp del: run_all.simps)
  qed
  have del: "db w' = stmtDeleteRound ?key (db w)
             \<and> rounds_tbl (db w') ?key = None
             \<and> (\<forall>i. tiles_tbl (db w') (?key, i) = None)
             \<and> (\<exists>reason. notifications w' = notifications w @ [(Some ?rid, reason)])"
    if "res = Inr False"
  proof -
    from that consider "fst ?t = Inr False" | err where "fst ?t = Inl err" "\<not> ?fault"
      unfolding res completePostFin_obs by (cases "fst ?t") (auto split: if_splits)
    then have "db w' = stmtDeleteRound ?key (db w)
        \<and> (\<exists>reason. notifications w' = notifications w @ [(Some ?rid, reason)])"
    proof cases
      case 1
      from completePostFin_try_false [OF ex 1] 1 show ?thesis
        by (simp add: w' completePostFin_obs notifications_def)
    next
      case 2
      from completePostFin_try_raised [OF ex 2(1)] 2 show ?thesis
        by (simp add: w' completePostFin_obs notifications_def)
    qed
    then show ?thesis by (simp add: stmtDeleteRound_gone)
  qed
  have fin: "notifications w' = notifications w
             \<and> (\<exists>data. length (tiles_post data) = 25
                  \<and> run_all (io_fault e) 0
                       (stmtUpdateRoundPostFin ?key data
                        # map (stmtUpdateTilePostFin ?key) (tiles_post data))
                       (db w) = Inr (db w'))" if "res = Inr True"
  proof -
    from that have t: "fst ?t = Inr True" by (simp add: true)
    from completePostFin_try_true [OF ex t] obtain rs rng tile where
      n: "notifications (snd ?t) = notifications w" and
      "run_all (io_fault e) 0
                  (stmtUpdateRoundPostFin ?key (buildPostFin e ?rid rs rng tile)
                   # map (stmtUpdateTilePostFin ?key)
                       (tiles_post (buildPostFin e ?rid rs rng tile))) (db w)
                 = Inr (db (snd ?t))" by blast
    then have "length (tiles_post (buildPostFin e ?rid rs rng tile)) = 25 \<and>
       run_all (io_fault e) 0
                  (stmtUpdateRoundPostFin ?key (buildPostFin e ?rid rs rng tile)
                   # map (stmtUpdateTilePostFin ?key)
                       (tiles_post (buildPostFin e ?rid rs rng tile))) (db w)
                 = Inr (db w')"
      using t by (simp add: w' completePostFin_obs length_tiles_post del: run_all.simps)
    moreover have "notifications w' = notifications w"
      using n t by (simp add: w' completePostFin_obs notifications_def)
    ultimately show ?thesis by blast
  qed
  have rej: "(\<exists>n. delete_fault e n)
             \<and> rounds_tbl (db w') ?key \<noteq> None
             \<and> notifications w' = notifications w
             \<and> (db w' = db w
                \<or> (\<exists>data. run_all (io_fault e) 0
                       (stmtUpdateRoundPostFin ?key data
                        # map (stmtUpdateTilePostFin ?key) (tiles_post data))
                       (db w) = Inr (db w')))" if "isl res"
  proof -
    from that obtain err where t: "fst ?t = Inl err" and fault: ?fault
      unfolding res completePostFin_obs by (cases "fst ?t") (auto split: if_splits)
    from t fault have d: "db w' = db (snd ?t)" and c: "calls w' = calls (snd ?t) @ [RepoDeleteRound ?rid]"
      by (simp_all add: w' completePostFin_obs)
    from c have "notifications w' = notifications (snd ?t)" by (simp add: notifications_def)
    with completePostFin_try_raised [OF ex t] have n: "notifications w' = notifications w" by simp
    from completePostFin_try_raised_db [OF ex t]
    have db: "db w' = db w
                \<or> (\<exists>data. run_all (io_fault e) 0
                       (stmtUpdateRoundPostFin ?key data
                        # map (stmtUpdateTilePostFin ?key) (tiles_post data))
                       (db w) = Inr (db w'))"
      unfolding d by blast
    then have "rounds_tbl (db w') ?key \<noteq> None"
    proof
      assume "db w' = db w"
      with ex show ?thesis by simp
    next
      assume "\<exists>data. run_all (io_fault e) 0
                       (stmtUpdateRoundPostFin ?key data
                        # map (stmtUpdateTilePostFin ?key) (tiles_post data))
                       (db w) = Inr (db w')"
      then obtain data where "run_all (io_fault e) 0
                       (stmtUpdateRoundPostFin ?key data
                        # map (stmtUpdateTilePostFin ?key) (tiles_post data))
                       (db w) = Inr (db w')" by blast
      from update_transaction_split [OF this row] show ?thesis by auto
    qed
    with fault n db show ?thesis by blast
  qed
  from rej have tot: "\<not> isl res" if "\<forall>n. \<not> delete_fault e n"
    using that by blast
  from nf x f del fin rej tot show ?thesis by blast
qed

text \<open>
  C1 fails where the DELETE of \<open>handleFailure\<close> raises. Round 5 has a row in the store,
  the chain has no account for it, and the driver raises at every DELETE:
  \<open>handleFailure\<close> throws inside the \<open>try\<close> block and again inside the \<open>catch\<close>, so
  \<open>completePostFin\<close> rejects. The store is untouched, with round 5 still in it, and no
  failure notification was sent: the calls are the existence query, the fetch and the two
  deletes.
\<close>

theorem completePostFin_delete_fault:
  "rounds_tbl (db pendingWorld) (round_key (previousRoundId ctx6))
     = Some \<lparr>pre_cols = sampleCols, post_cols = pending_cols\<rparr>
   \<and> isl (chain faultyEnv (previousRoundId ctx6))
   \<and> fst (completePostFin faultyEnv ctx6 pendingWorld) = Inl (SqliteError ''disk I/O error'')
   \<and> db (snd (completePostFin faultyEnv ctx6 pendingWorld)) = db pendingWorld
   \<and> calls (snd (completePostFin faultyEnv ctx6 pendingWorld))
       = [RepoExists 5, FetchRoundState 5, RepoDeleteRound 5, RepoDeleteRound 5]
   \<and> notifications (snd (completePostFin faultyEnv ctx6 pendingWorld)) = []"
proof -
  let ?t = "completePostFin_try faultyEnv 5 pendingWorld"
  have r: "rounds_tbl (db pendingWorld) (round_key 5)
     = Some \<lparr>pre_cols = sampleCols, post_cols = pending_cols\<rparr>"
    by (simp add: pendingWorld_def round_key_small)
  have c: "chain faultyEnv 5 = Inl (Error ''Round account not found'')"
    by (simp add: faultyEnv_def offlineEnv_def)
  have f: "delete_fault faultyEnv n" for n by (simp add: faultyEnv_def)
  have t: "fst ?t = Inl (SqliteError ''disk I/O error'')"
    "db (snd ?t) = db pendingWorld"
    "calls (snd ?t) = [RepoExists 5, FetchRoundState 5, RepoDeleteRound 5]"
    using r c f
    by (simp_all add: completePostFin_try_def Let_def case_prod_beta world_simps pendingWorld_def)
  from t f have
    "fst (completePostFin faultyEnv ctx6 pendingWorld) = Inl (SqliteError ''disk I/O error'')"
    "db (snd (completePostFin faultyEnv ctx6 pendingWorld)) = db pendingWorld"
    "calls (snd (completePostFin faultyEnv ctx6 pendingWorld))
       = [RepoExists 5, FetchRoundState 5, RepoDeleteRound 5, RepoDeleteRound 5]"
    by (simp_all add: completePostFin_obs ctx6_def)
  with r c show ?thesis by (simp add: ctx6_def notifications_def)
qed

lemma completePostFin_split_flag:
  assumes row: "rounds_tbl (db w) (round_key (previousRoundId ctx)) = Some row"
    and ok: "fst (completePostFin e ctx w) = Inr True"
    and rs: "chain e (previousRoundId ctx) = Inr rs"
  shows "\<exists>row'. rounds_tbl (db (snd (completePostFin e ctx w))) (round_key (previousRoundId ctx)) = Some row'
           \<and> pre_cols row' = pre_cols row
           \<and> split_top_miner (post_cols row')
               = Some (Finite (if topMiner rs = SPLIT_ADDRESS then 1 else 0))
           \<and> slot_hash (post_cols row') = Some (slotHash rs)"
proof -
  let ?rid = "previousRoundId ctx"
  let ?t = "completePostFin_try e ?rid w"
  from row have ex: "rounds_tbl (db w) (round_key ?rid) \<noteq> None" by simp
  from ok have t: "fst ?t = Inr True" by (simp add: completePostFin_true)
  from completePostFin_try_true [OF ex t] rs obtain rng tile where
      "run_all (io_fault e) 0
                  (stmtUpdateRoundPostFin (round_key ?rid) (buildPostFin e ?rid rs rng tile)
                   # map (stmtUpdateTilePostFin (round_key ?rid))
                       (tiles_post (buildPostFin e ?rid rs rng tile))) (db w)
                 = Inr (db (snd ?t))" by auto
  from update_transaction_split [OF this row] t show ?thesis
    by (simp add: completePostFin_obs buildPostFin_def)
qed

lemma run_all_total:
  assumes "\<And>stmt d. stmt \<in> set stmts \<Longrightarrow> \<exists>d'. stmt d = Inr d'"
  shows "\<exists>d'. run_all None n stmts d = Inr d'"
  using assms
proof (induction stmts arbitrary: n d)
  case Nil
  then show ?case by simp
next
  case (Cons stmt rest)
  from Cons.prems [of stmt d] obtain d1 where "stmt d = Inr d1" by auto
  moreover have "\<exists>d'. run_all None (Suc n) rest d1 = Inr d'"
  proof (rule Cons.IH)
    fix s a assume "s \<in> set rest"
    then show "\<exists>d'. s a = Inr d'" using Cons.prems [of s a] by simp
  qed
  ultimately show ?case by simp
qed

lemma completeValidRound_succeeds:
  assumes len: "length (slotHash rs) = 32" and cnt: "length (counts rs) = 25"
    and io: "io_fault e = None"
  shows "fst (completeValidRound e rid rs w) = Inr True"
proof -
  let ?tile = "spec_winning_tile (slotHash rs)"
  from len obtain rng where rng: "computeRng (slotHash rs) = Inr rng"
    by (simp add: computeRng_32)
  from len have tile: "computeWinningTile (slotHash rs) = Inr ?tile"
    by (rule computeWinningTile_value)
  have range: "0 \<le> ?tile" "?tile \<le> 24" using spec_winning_tile_range [of "slotHash rs"] by simp_all
  let ?data = "buildPostFin e rid rs rng ?tile"
  have "\<exists>d'. stmt d = Inr d'"
    if "stmt \<in> set (stmtUpdateRoundPostFin (round_key rid) ?data
                     # map (stmtUpdateTilePostFin (round_key rid)) (tiles_post ?data))" for stmt d
    using that range len
    by (auto simp add: stmtUpdateRoundPostFin_def stmtUpdateTilePostFin_def buildPostFin_def
        split: option.splits)
  then obtain d' where run: "run_all None 0 (stmtUpdateRoundPostFin (round_key rid) ?data
                     # map (stmtUpdateTilePostFin (round_key rid)) (tiles_post ?data)) (db w) = Inr d'"
    using run_all_total by blast
  have "nat ?tile < 25" using range by simp
  then have n: "numWinners ?data = Some (counts rs ! nat ?tile)"
    using range cnt by (simp add: buildPostFin_def index_def)
  show ?thesis
    using rng tile run n io
    by (simp add: completeValidRound_def Let_def case_prod_beta world_simps roundId_post_build
        del: run_all.simps)
qed

lemma completePostFin_succeeds:
  assumes row: "rounds_tbl (db w) (round_key (previousRoundId ctx)) = Some row"
    and rs: "chain e (previousRoundId ctx) = Inr rs"
    and valid: "isSlotHashValid (slotHash rs)"
    and len: "length (slotHash rs) = 32" and cnt: "length (counts rs) = 25"
    and io: "io_fault e = None"
  shows "fst (completePostFin e ctx w) = Inr True"
  using row rs valid completeValidRound_succeeds [OF len cnt io]
  by (simp add: completePostFin_true completePostFin_try_def Let_def case_prod_beta world_simps)

lemma le_value_2: "le_value buf k 2 = byte_at buf k + byte_at buf (k + 1) * 2 ^ 8"
  by (simp add: le_value_def byte_at_def eval_nat_numeral lessThan_Suc)

lemma shouldSplitReward_spec:
  "length seed = 32 \<Longrightarrow> shouldSplitReward seed = spec_split_even seed"
  by (simp add: shouldSplitReward_def spec_split_even_def readUInt16LE_def le_value_2
      even_iff_mod_2_eq_zero)

lemma completeValidRound_calls:
  assumes "fst (completeValidRound e rid rs w) = Inr True"
  shows "\<exists>rng tile. calls (snd (completeValidRound e rid rs w))
           = calls w @ [RepoCompletePostFin (buildPostFin e rid rs rng tile)]"
  using assms
  by (auto simp add: completeValidRound_def Let_def case_prod_beta world_simps
      simp del: run_all.simps split: sum.splits option.splits)

lemma completePostFin_calls:
  assumes row: "rounds_tbl (db w) (round_key (previousRoundId ctx)) = Some row"
    and ok: "fst (completePostFin e ctx w) = Inr True"
    and rs: "chain e (previousRoundId ctx) = Inr rs"
  shows "\<exists>rng tile. calls (snd (completePostFin e ctx w))
           = calls w @ [RepoExists (previousRoundId ctx), FetchRoundState (previousRoundId ctx),
                        RepoCompletePostFin (buildPostFin e (previousRoundId ctx) rs rng tile)]"
proof -
  let ?rid = "previousRoundId ctx"
  let ?w2 = "snd (fetchRoundStateOrNull e ?rid (snd (repo_exists ?rid w)))"
  from ok have t: "fst (completePostFin_try e ?rid w) = Inr True" by (simp add: completePostFin_true)
  from t row rs have v: "completePostFin_try e ?rid w = completeValidRound e ?rid rs ?w2"
    by (auto simp add: completePostFin_try_def Let_def case_prod_beta world_simps
        split: if_splits)
  from t have "fst (completeValidRound e ?rid rs ?w2) = Inr True" by (simp add: v)
  from completeValidRound_calls [OF this] t show ?thesis
    by (simp add: completePostFin_obs v world_simps)
qed

text \<open>
  C6, as the code has it. For every round that \<open>completePostFin\<close> completes, the
  \<open>RoundPostFin\<close> record passed to the repository has \<open>splitTopMiner\<close> true exactly
  when the round's top miner is the split address, and the row's \<open>split_top_miner\<close>
  column is 1 or 0 accordingly; the seed plays no part. The function
  \<open>shouldSplitReward\<close>, which \<open>completePostFin\<close> does not call, is the one that is
  true exactly when the XOR of the four 2-byte little-endian values at offsets 0, 2, 4
  and 6 of a 32-byte seed is even.
\<close>

theorem split_flag_recorded:
  assumes row: "rounds_tbl (db w) (round_key (previousRoundId ctx)) = Some row"
    and ok: "fst (completePostFin e ctx w) = Inr True"
    and rs: "chain e (previousRoundId ctx) = Inr rs"
  shows "(\<exists>data. last (calls (snd (completePostFin e ctx w))) = RepoCompletePostFin data
            \<and> splitTopMiner data = (topMiner rs = SPLIT_ADDRESS))
       \<and> (\<exists>row'. rounds_tbl (db (snd (completePostFin e ctx w))) (round_key (previousRoundId ctx))
                    = Some row'
             \<and> split_top_miner (post_cols row')
                 = Some (Finite (if topMiner rs = SPLIT_ADDRESS then 1 else 0)))
       \<and> (length (slotHash rs) = 32 \<longrightarrow>
             shouldSplitReward (slotHash rs) = spec_split_even (slotHash rs))"
proof -
  from completePostFin_calls [OF row ok rs]
  have "\<exists>data. last (calls (snd (completePostFin e ctx w))) = RepoCompletePostFin data
            \<and> splitTopMiner data = (topMiner rs = SPLIT_ADDRESS)"
    by (auto simp add: buildPostFin_def)
  moreover from completePostFin_split_flag [OF row ok rs]
  have "\<exists>row'. rounds_tbl (db (snd (completePostFin e ctx w))) (round_key (previousRoundId ctx))
                    = Some row'
             \<and> split_top_miner (post_cols row')
                 = Some (Finite (if topMiner rs = SPLIT_ADDRESS then 1 else 0))"
    by blast
  ultimately show ?thesis using shouldSplitReward_spec by blast
qed

lemma live_facts:
  "rounds_tbl (db pendingWorld) (round_key (previousRoundId ctx6))
     = Some \<lparr>pre_cols = sampleCols, post_cols = pending_cols\<rparr>"
  "chain (liveEnv miner) (previousRoundId ctx6) = Inr (settledRound miner)"
  "isSlotHashValid (slotHash (settledRound miner))"
  "length (slotHash (settledRound miner)) = 32"
  "length (counts (settledRound miner)) = 25"
  "io_fault (liveEnv miner) = None"
  "topMiner (settledRound miner) = miner"
  by (simp_all add: pendingWorld_def ctx6_def round_key_small liveEnv_def offlineEnv_def
      settledRound_def emptyRound_def isSlotHashValid_def)

lemma live_succeeds: "fst (completePostFin (liveEnv miner) ctx6 pendingWorld) = Inr True"
  using live_facts(1-6) by (rule completePostFin_succeeds)

theorem split_flag_recorded_witness:
  "rounds_tbl (db pendingWorld) (round_key (previousRoundId ctx6))
     = Some \<lparr>pre_cols = sampleCols, post_cols = pending_cols\<rparr>
   \<and> fst (completePostFin (liveEnv SPLIT_ADDRESS) ctx6 pendingWorld) = Inr True
   \<and> chain (liveEnv SPLIT_ADDRESS) (previousRoundId ctx6) = Inr (settledRound SPLIT_ADDRESS)
   \<and> (\<exists>row'. rounds_tbl (db (snd (completePostFin (liveEnv SPLIT_ADDRESS) ctx6 pendingWorld)))
                 (round_key (previousRoundId ctx6)) = Some row'
             \<and> split_top_miner (post_cols row') = Some (Finite 1))"
  using split_flag_recorded [OF live_facts(1) live_succeeds [of SPLIT_ADDRESS] live_facts(2)]
    live_facts(1) live_facts(2,7) [of SPLIT_ADDRESS] live_succeeds [of SPLIT_ADDRESS]
  by simp

text \<open>
  C6 as stated fails: the seed that starts with the byte 26 and is zero elsewhere has an
  even XOR of its first four 2-byte values, and a round with that seed whose top miner is
  not the split address is completed with the split flag 0.
\<close>

theorem split_flag_counterexample:
  "fst (completePostFin (liveEnv (PublicKey ''miner'')) ctx6 pendingWorld) = Inr True
   \<and> spec_split_even (slotHash (settledRound (PublicKey ''miner'')))
   \<and> map_option (split_top_miner \<circ> post_cols)
        (rounds_tbl (db (snd (completePostFin (liveEnv (PublicKey ''miner'')) ctx6 pendingWorld)))
           (round_key (previousRoundId ctx6)))
      = Some (Some (Finite 0))"
proof -
  have e: "spec_split_even (slotHash (settledRound (PublicKey ''miner'')))"
    by (simp add: spec_split_even_def le_value_2 byte_at_def settledRound_def)
  have n: "PublicKey ''miner'' \<noteq> SPLIT_ADDRESS" by (simp add: SPLIT_ADDRESS_def)
  from completePostFin_split_flag [OF live_facts(1) live_succeeds [of "PublicKey ''miner''"] live_facts(2)]
    n live_facts(7) [of "PublicKey ''miner''"] e live_succeeds [of "PublicKey ''miner''"]
  show ?thesis by auto
qed

end
